theory Spec2Isabelle
  imports Complex_Main "HOL-Library.Multiset" "HOL-Library.AList"
begin

section \<open>Telemetry data\<close>

text \<open>
  The spans of the pdata library, reduced to the accessors the store and the report use.
  An identifier is the string its \<^verbatim>\<open>String()\<close> method returns: the empty string for
  the all-zero identifier (\<^verbatim>\<open>IsEmpty()\<close>), the hexadecimal form otherwise. Timestamps are
  unsigned nanosecond counts and are only compared.
\<close>

datatype StatusCode = StatusCodeUnset | StatusCodeOk | StatusCodeError

record Span =
  TraceID :: string
  SpanID :: string
  ParentSpanID :: string
  SpanName :: string
  StartTimestamp :: nat
  EndTimestamp :: nat
  SpanStatus :: StatusCode

type_synonym Resource = "(string \<times> string) list"
type_synonym InstrumentationScope = "string \<times> string"

record ScopeSpans =
  ssScope :: InstrumentationScope
  ssSpans :: "Span list"

record ResourceSpans =
  rsResource :: Resource
  rsScopeSpans :: "ScopeSpans list"

type_synonym Traces = "ResourceSpans list"

section \<open>Configuration and the store (config.go, storage.go)\<close>

text \<open>
  Go's \<^verbatim>\<open>int\<close> and \<^verbatim>\<open>int64\<close> counters are modelled as unbounded integers: every
  counter below moves by one per stored or dropped batch and every size is a weighted count
  of the spans held in memory, so none of them comes near \<open>2^63\<close>. The byte cap is the one
  value that a configuration can push beyond it: the product that computes it wraps
  around as the 64-bit product does (\<open>wrap64\<close>). A \<^verbatim>\<open>time.Time\<close>
  is the integer number of nanoseconds on the clock that \<^verbatim>\<open>time.Now()\<close> reads, and a
  \<^verbatim>\<open>time.Duration\<close> is an integer number of nanoseconds. The reading of the clock
  is an argument of every operation that calls \<^verbatim>\<open>time.Now()\<close>.
\<close>

record Config =
  MaxTraces :: int
  MaxMemoryMB :: int
  TraceExpiration :: int

record traceEntry =
  entry_traces :: Traces
  entry_timestamp :: int
  entry_sizeBytes :: int

record TraceStorage =
  traces :: "traceEntry list"
  config :: Config
  totalSizeBytes :: int
  totalSpanCount :: int
  droppedTraces :: int
  droppedOldest :: int

definition NewTraceStorage :: "Config \<Rightarrow> TraceStorage" where
  "NewTraceStorage cfg =
     \<lparr>traces = [], config = cfg, totalSizeBytes = 0, totalSpanCount = 0,
      droppedTraces = 0, droppedOldest = 0\<rparr>"

definition countSpans :: "Traces \<Rightarrow> int" where
  "countSpans trs =
     foldl (\<lambda>count rs. foldl (\<lambda>count ss. count + int (length (ssSpans ss))) count (rsScopeSpans rs))
       0 trs"

definition estimateSize :: "Traces \<Rightarrow> int \<Rightarrow> int" where
  "estimateSize trs spanCount =
     (let baseSize = 100;
          resourceSize = int (length trs) * 500;
          spanSize = spanCount * 1024
      in baseSize + resourceSize + spanSize)"

text \<open>The value of an integer as a signed 64-bit integer, after wrap-around.\<close>

definition wrap64 :: "int \<Rightarrow> int" where
  "wrap64 x = (x + 2 ^ 63) mod 2 ^ 64 - 2 ^ 63"

text \<open>
  The local \<^verbatim>\<open>maxBytes\<close> of \<^verbatim>\<open>AddTraces\<close> and \<^verbatim>\<open>evictOldestUntilRoom\<close>,
  \<^verbatim>\<open>int64(s.config.MaxMemoryMB) * 1024 * 1024\<close>: each product wraps around.
\<close>

definition maxBytes :: "Config \<Rightarrow> int" where
  "maxBytes cfg = wrap64 (wrap64 (wrap64 (MaxMemoryMB cfg) * 1024) * 1024)"

definition removeOldest :: "TraceStorage \<Rightarrow> TraceStorage" where
  "removeOldest s =
     (case traces s of
        [] \<Rightarrow> s
      | oldest # rest \<Rightarrow>
          s\<lparr>totalSizeBytes := totalSizeBytes s - entry_sizeBytes oldest,
            totalSpanCount := totalSpanCount s - countSpans (entry_traces oldest),
            droppedOldest := droppedOldest s + 1,
            traces := rest\<rparr>)"

function evictOldestUntilRoom :: "TraceStorage \<Rightarrow> int \<Rightarrow> TraceStorage" where
  "evictOldestUntilRoom s newSize =
     (if length (traces s) > 0 \<and> totalSizeBytes s + newSize > maxBytes (config s)
      then evictOldestUntilRoom (removeOldest s) newSize
      else s)"
  by pat_completeness auto
termination
  by (relation "measure (\<lambda>(s, newSize). length (traces s))")
     (auto simp: removeOldest_def split: list.splits)

declare evictOldestUntilRoom.simps [simp del]

text \<open>The entry that \<^verbatim>\<open>AddTraces\<close> builds from the cloned batch.\<close>

definition newEntry :: "Traces \<Rightarrow> int \<Rightarrow> traceEntry" where
  "newEntry trs now =
     \<lparr>entry_traces = trs, entry_timestamp = now,
      entry_sizeBytes = estimateSize trs (countSpans trs)\<rparr>"

definition AddTraces :: "TraceStorage \<Rightarrow> Traces \<Rightarrow> int \<Rightarrow> TraceStorage" where
  "AddTraces s trs now =
     (let spanCount = countSpans trs;
          estimatedSize = estimateSize trs spanCount;
          entry = newEntry trs now;
          s1 = (if MaxMemoryMB (config s) > 0
                then (if totalSizeBytes s + estimatedSize > maxBytes (config s)
                      then evictOldestUntilRoom s estimatedSize else s)
                else s);
          s2 = (if MaxTraces (config s1) > 0 \<and> int (length (traces s1)) \<ge> MaxTraces (config s1)
                then removeOldest s1 else s1)
      in s2\<lparr>traces := traces s2 @ [entry],
            totalSizeBytes := totalSizeBytes s2 + estimatedSize,
            totalSpanCount := totalSpanCount s2 + spanCount\<rparr>)"

text \<open>
  \<^verbatim>\<open>expireOldTracesLocked\<close> in its two parts: the loop over \<^verbatim>\<open>s.traces\<close>, which
  updates the counters of the store and fills the local \<^verbatim>\<open>newTraces\<close>, and the final
  assignment of \<^verbatim>\<open>newTraces\<close> to \<^verbatim>\<open>s.traces\<close>. \<^verbatim>\<open>entry.timestamp.After(cutoff)\<close>
  is \<open>cutoff < entry_timestamp entry\<close>.
\<close>

fun expireLoop :: "int \<Rightarrow> traceEntry list \<Rightarrow> TraceStorage \<times> traceEntry list
    \<Rightarrow> TraceStorage \<times> traceEntry list" where
  "expireLoop cutoff [] (s, newTraces) = (s, newTraces)"
| "expireLoop cutoff (entry # rest) (s, newTraces) =
     (if cutoff < entry_timestamp entry
      then expireLoop cutoff rest (s, newTraces @ [entry])
      else expireLoop cutoff rest
             (s\<lparr>totalSizeBytes := totalSizeBytes s - entry_sizeBytes entry,
                totalSpanCount := totalSpanCount s - countSpans (entry_traces entry),
                droppedOldest := droppedOldest s + 1\<rparr>, newTraces))"

definition expireCommit :: "TraceStorage \<Rightarrow> traceEntry list \<Rightarrow> TraceStorage" where
  "expireCommit s newTraces =
     (if length newTraces < length (traces s) then s\<lparr>traces := newTraces\<rparr> else s)"

definition expireOldTracesLocked :: "TraceStorage \<Rightarrow> int \<Rightarrow> TraceStorage" where
  "expireOldTracesLocked s now =
     (if TraceExpiration (config s) \<le> 0 then s
      else (let cutoff = now - TraceExpiration (config s)
            in case expireLoop cutoff (traces s) (s, []) of
                 (s', newTraces) \<Rightarrow> expireCommit s' newTraces))"

definition GetTraces :: "TraceStorage \<Rightarrow> int \<Rightarrow> TraceStorage \<times> Traces list" where
  "GetTraces s now =
     (let s' = expireOldTracesLocked s now in (s', map entry_traces (traces s')))"

text \<open>The float64 quotient of \<^verbatim>\<open>GetStats\<close> is taken in the reals.\<close>

definition GetStats :: "TraceStorage \<Rightarrow> int \<times> int \<times> int \<times> int \<times> real" where
  "GetStats s =
     (int (length (traces s)), totalSpanCount s, droppedTraces s, droppedOldest s,
      real_of_int (totalSizeBytes s) / (1024 * 1024))"

subsection \<open>Sequences of calls\<close>

datatype storeOp = Admit Traces int | Snapshot int | Stats

fun applyOp :: "TraceStorage \<Rightarrow> storeOp \<Rightarrow> TraceStorage" where
  "applyOp s (Admit trs now) = AddTraces s trs now"
| "applyOp s (Snapshot now) = fst (GetTraces s now)"
| "applyOp s Stats = s"

definition runOps :: "TraceStorage \<Rightarrow> storeOp list \<Rightarrow> TraceStorage" where
  "runOps s ops = foldl applyOp s ops"

text \<open>The totals recomputed from the retained entries alone.\<close>

definition recomputeBytes :: "TraceStorage \<Rightarrow> int" where
  "recomputeBytes s = sum_list (map entry_sizeBytes (traces s))"

definition recomputeSpans :: "TraceStorage \<Rightarrow> int" where
  "recomputeSpans s = sum_list (map (\<lambda>e. countSpans (entry_traces e)) (traces s))"

fun isAdmit :: "storeOp \<Rightarrow> bool" where
  "isAdmit (Admit trs now) = True"
| "isAdmit (Snapshot now) = False"
| "isAdmit Stats = False"

definition accounted :: "TraceStorage \<Rightarrow> bool" where
  "accounted s \<longleftrightarrow>
     totalSizeBytes s = recomputeBytes s \<and> totalSpanCount s = recomputeSpans s"

text \<open>Every batch the store holds or has dropped.\<close>

definition everSeen :: "TraceStorage \<Rightarrow> int" where
  "everSeen s = droppedOldest s + int (length (traces s))"

subsection \<open>The lock of the store\<close>

text \<open>
  Every method of the store starts by taking \<^verbatim>\<open>s.mu\<close>, a \<^verbatim>\<open>sync.RWMutex\<close>, with
  \<^verbatim>\<open>Lock()\<close> or with \<^verbatim>\<open>RLock()\<close>. The mutex is held either by one writer or by any
  number of readers; \<open>acquire\<close> returns \<open>None\<close> where the caller has to wait.
\<close>

datatype lockKind = RLock | Lock

datatype storeMethod = mAddTraces | mGetTraces | mGetStats | mWriteMarkdown

fun lockTaken :: "storeMethod \<Rightarrow> lockKind" where
  "lockTaken mAddTraces = Lock"
| "lockTaken mGetTraces = RLock"
| "lockTaken mGetStats = RLock"
| "lockTaken mWriteMarkdown = RLock"

record RWMutex =
  readers :: nat
  writer :: bool

definition unlocked :: RWMutex where
  "unlocked = \<lparr>readers = 0, writer = False\<rparr>"

fun acquire :: "lockKind \<Rightarrow> RWMutex \<Rightarrow> RWMutex option" where
  "acquire RLock m = (if writer m then None else Some (m\<lparr>readers := readers m + 1\<rparr>))"
| "acquire Lock m =
     (if writer m \<or> readers m > 0 then None else Some (m\<lparr>writer := True\<rparr>))"

text \<open>
  Two calls of \<^verbatim>\<open>GetTraces\<close> that both hold the read lock, scheduled statement by
  statement: the loop of the first call, the loop of the second call, then the two final
  assignments. Each loop ranges over the \<^verbatim>\<open>s.traces\<close> it reads when it starts.
\<close>

definition interleavedExpiry :: "TraceStorage \<Rightarrow> int \<Rightarrow> int \<Rightarrow> TraceStorage" where
  "interleavedExpiry s nowA nowB =
     (if TraceExpiration (config s) \<le> 0 then s
      else (case expireLoop (nowA - TraceExpiration (config s)) (traces s) (s, []) of
        (sA, newTracesA) \<Rightarrow>
          (case expireLoop (nowB - TraceExpiration (config sA)) (traces sA) (sA, []) of
             (sB, newTracesB) \<Rightarrow> expireCommit (expireCommit sB newTracesA) newTracesB)))"

section \<open>The report: grouping, ordering and span trees\<close>

text \<open>
  A Go map is an association list with one pair per key, in the order in which the keys
  were first stored. The order in which \<^verbatim>\<open>range\<close> visits a map is not fixed by the
  language, so every loop over a map takes the order as an argument: a function that
  permutes the pairs of the map (\<open>rangeOrder\<close>).

  \<^verbatim>\<open>sort.Slice\<close> with a comparison of unsigned keys returns the elements ordered by
  key and leaves the relative order of elements with equal keys open: the library sorts
  slices of up to twelve elements by insertion, which keeps such elements in their order
  of arrival, and may reorder them in longer slices. \<open>sortSlice\<close> is the insertion sort.
  Both lists that the report sorts have just been collected by ranging over a map, in an
  order that is an argument here, and a list that is already ordered by key comes out of
  \<open>sortSlice\<close> as it is: every outcome of a sort that reorders equal keys is the outcome
  of \<open>sortSlice\<close> for another order of visit. What is proved for every order of visit
  therefore holds for any such sort, and it uses of \<open>sortSlice\<close> only that its result is
  ordered by key and a permutation of its argument. The examples have at most three
  elements.
\<close>

record spanInfo =
  si_span :: Span
  si_resource :: Resource
  si_scope :: InstrumentationScope

record traceInfo =
  traceID :: string
  spans :: "spanInfo list"

definition sortSlice :: "('a \<Rightarrow> nat) \<Rightarrow> 'a list \<Rightarrow> 'a list" where
  "sortSlice key xs = sort_key key xs"

definition rangeOrder :: "('a list \<Rightarrow> 'a list) \<Rightarrow> bool" where
  "rangeOrder ord \<longleftrightarrow> (\<forall>m. mset (ord m) = mset m)"

text \<open>The body of the innermost loop of \<^verbatim>\<open>WriteMarkdown\<close>, lines 61 to 74.\<close>

definition addSpan :: "(string \<times> traceInfo) list \<Rightarrow> spanInfo \<Rightarrow> (string \<times> traceInfo) list" where
  "addSpan traceMap si =
     (let tid = TraceID (si_span si);
          traceMap1 = (if map_of traceMap tid = None
                       then traceMap @ [(tid, \<lparr>traceID = tid, spans = []\<rparr>)]
                       else traceMap)
      in AList.map_entry tid (\<lambda>ti. ti\<lparr>spans := spans ti @ [si]\<rparr>) traceMap1)"

definition groupSpans :: "traceEntry list \<Rightarrow> (string \<times> traceInfo) list" where
  "groupSpans entries =
     foldl (\<lambda>traceMap entry.
       foldl (\<lambda>traceMap rs.
         foldl (\<lambda>traceMap ss.
           foldl (\<lambda>traceMap sp.
               addSpan traceMap \<lparr>si_span = sp, si_resource = rsResource rs, si_scope = ssScope ss\<rparr>)
             traceMap (ssSpans ss))
           traceMap (rsScopeSpans rs))
         traceMap (entry_traces entry))
       [] entries"

text \<open>The spans of a batch and of a snapshot, with their resource and scope, in the order of the loops.\<close>

definition batchSpans :: "traceEntry \<Rightarrow> spanInfo list" where
  "batchSpans entry =
     concat (map (\<lambda>rs. concat (map (\<lambda>ss.
         map (\<lambda>sp. \<lparr>si_span = sp, si_resource = rsResource rs, si_scope = ssScope ss\<rparr>) (ssSpans ss))
       (rsScopeSpans rs))) (entry_traces entry))"

definition snapshotSpans :: "traceEntry list \<Rightarrow> spanInfo list" where
  "snapshotSpans entries = concat (map batchSpans entries)"

definition getEarliestTime :: "traceInfo \<Rightarrow> nat" where
  "getEarliestTime ti =
     (case spans ti of
        [] \<Rightarrow> 0
      | first # rest \<Rightarrow>
          foldl (\<lambda>earliest si.
                   if StartTimestamp (si_span si) < earliest then StartTimestamp (si_span si)
                   else earliest)
            (StartTimestamp (si_span first)) rest)"

text \<open>The slice \<^verbatim>\<open>traces\<close> of \<^verbatim>\<open>WriteMarkdown\<close> after \<^verbatim>\<open>sort.Slice\<close>, lines 80 to 87.\<close>

definition sortedTraces :: "((string \<times> traceInfo) list \<Rightarrow> (string \<times> traceInfo) list)
    \<Rightarrow> traceEntry list \<Rightarrow> traceInfo list" where
  "sortedTraces ord entries = sortSlice getEarliestTime (map snd (ord (groupSpans entries)))"

datatype spanTreeNode =
  Node (node_spanInfo: spanInfo) (node_children: "spanTreeNode list") (node_depth: int)

text \<open>
  The zero value of \<^verbatim>\<open>spanInfo\<close>. Where no span without parent is found,
  \<^verbatim>\<open>buildSpanTree\<close> calls \<^verbatim>\<open>SpanID()\<close> on the span of this value, an accessor of the
  pdata library. What the accessor does there is a parameter of the model: it returns the
  empty identifier, which is what the test of line 262 presumes, or the call panics on the
  span that was never initialised.
\<close>

definition zeroSpan :: Span where
  "zeroSpan = \<lparr>TraceID = [], SpanID = [], ParentSpanID = [], SpanName = [],
     StartTimestamp = 0, EndTimestamp = 0, SpanStatus = StatusCodeUnset\<rparr>"

definition zeroSpanInfo :: spanInfo where
  "zeroSpanInfo = \<lparr>si_span = zeroSpan, si_resource = [], si_scope = ([], [])\<rparr>"

text \<open>
  \<^verbatim>\<open>buildChildren\<close> calls itself once for every span whose parent is the node. The
  first argument bounds the depth of these nested calls, as the stack of the goroutine
  does: at depth 0 the call does not return, and \<open>None\<close> is that outcome. The order
  argument gives, for the call on a node, the order in which its loop visits the map.
  The function returns the node completed with its sorted children.
\<close>

fun buildChildren :: "nat \<Rightarrow> (string \<Rightarrow> (string \<times> spanInfo) list \<Rightarrow> (string \<times> spanInfo) list)
    \<Rightarrow> spanInfo \<Rightarrow> int \<Rightarrow> (string \<times> spanInfo) list \<Rightarrow> spanTreeNode option" where
  "buildChildren 0 ord nodeInfo depth spanMap = None"
| "buildChildren (Suc fuel) ord nodeInfo depth spanMap =
     (let parentID = SpanID (si_span nodeInfo);
          matching = filter (\<lambda>si. ParentSpanID (si_span si) = parentID)
                       (map snd (ord parentID spanMap))
      in case those (map (\<lambda>si. buildChildren fuel ord si (depth + 1) spanMap) matching) of
           None \<Rightarrow> None
         | Some kids \<Rightarrow>
             Some (Node nodeInfo
                    (sortSlice (\<lambda>child. StartTimestamp (si_span (node_spanInfo child))) kids)
                    depth))"

declare buildChildren.simps [simp del]

definition buildSpanMap :: "spanInfo list \<Rightarrow> (string \<times> spanInfo) list" where
  "buildSpanMap sis = foldl (\<lambda>spanMap si. AList.update (SpanID (si_span si)) si spanMap) [] sis"

text \<open>
  \<^verbatim>\<open>buildSpanTree\<close> returns no tree (\<open>None\<close>) where the accessor panics on the zero
  value or where \<^verbatim>\<open>buildChildren\<close> does not return.
\<close>

definition buildSpanTree :: "bool \<Rightarrow> nat
    \<Rightarrow> (string \<Rightarrow> (string \<times> spanInfo) list \<Rightarrow> (string \<times> spanInfo) list)
    \<Rightarrow> traceInfo \<Rightarrow> spanTreeNode option" where
  "buildSpanTree zeroPanics fuel ord ti =
     (let spanMap = buildSpanMap (spans ti);
          found = find (\<lambda>si. ParentSpanID (si_span si) = []) (spans ti)
      in if found = None \<and> zeroPanics then None
         else (let rootSpan = (case found of Some si \<Rightarrow> si | None \<Rightarrow> zeroSpanInfo);
                   rootSpan = (if SpanID (si_span rootSpan) = [] \<and> length (spans ti) > 0
                               then hd (spans ti) else rootSpan)
               in buildChildren fuel ord rootSpan 0 spanMap))"

text \<open>
  The span that \<^verbatim>\<open>buildSpanTree\<close> makes the root where it gets that far: the first
  span without parent, or the first span of the list where that search leaves an empty
  span identifier.
\<close>

definition rootOf :: "traceInfo \<Rightarrow> spanInfo" where
  "rootOf ti =
    (let rootSpan = (case find (\<lambda>si. ParentSpanID (si_span si) = []) (spans ti) of
                        Some si \<Rightarrow> si
                      | None \<Rightarrow> zeroSpanInfo)
     in if SpanID (si_span rootSpan) = [] \<and> length (spans ti) > 0
                      then hd (spans ti) else rootSpan)"

text \<open>
  What the tree should satisfy at every node: the children are sorted by start time, they
  are exactly the spans of the map whose parent is the node, and each is one level deeper.
\<close>

fun childrenSorted :: "(string \<times> spanInfo) list \<Rightarrow> spanTreeNode \<Rightarrow> bool" where
  "childrenSorted spanMap (Node si kids d) \<longleftrightarrow>
     sorted (map (\<lambda>child. StartTimestamp (si_span (node_spanInfo child))) kids)
     \<and> mset (map node_spanInfo kids)
         = mset (filter (\<lambda>c. ParentSpanID (si_span c) = SpanID (si_span si)) (map snd spanMap))
     \<and> (\<forall>k\<in>set kids. node_depth k = d + 1 \<and> childrenSorted spanMap k)"

text \<open>
  The spans below the root of a tree, one per node, and the number of nodes of a tree:
  \<^verbatim>\<open>buildChildren\<close> is called once for every node.
\<close>

fun descendants :: "spanTreeNode \<Rightarrow> spanInfo list" where
  "descendants (Node si kids d) = concat (map (\<lambda>k. node_spanInfo k # descendants k) kids)"

fun treeSize :: "spanTreeNode \<Rightarrow> nat" where
  "treeSize (Node si kids d) = Suc (sum_list (map treeSize kids))"

section \<open>The store: properties\<close>

lemma traces_removeOldest: "traces (removeOldest s) = tl (traces s)"
  by (simp add: removeOldest_def split: list.splits)

lemma config_removeOldest: "config (removeOldest s) = config s"
  by (simp add: removeOldest_def split: list.splits)

lemma droppedTraces_removeOldest: "droppedTraces (removeOldest s) = droppedTraces s"
  by (simp add: removeOldest_def split: list.splits)

lemma droppedOldest_removeOldest:
  "droppedOldest (removeOldest s) = droppedOldest s + (if traces s = [] then 0 else 1)"
  by (simp add: removeOldest_def split: list.splits)



lemma config_evictOldestUntilRoom: "config (evictOldestUntilRoom s n) = config s"
proof (induction s n rule: evictOldestUntilRoom.induct)
  case (1 s newSize)
  then show ?case
    by (subst evictOldestUntilRoom.simps) (simp add: config_removeOldest)
qed

lemma droppedTraces_evictOldestUntilRoom:
  "droppedTraces (evictOldestUntilRoom s n) = droppedTraces s"
proof (induction s n rule: evictOldestUntilRoom.induct)
  case (1 s newSize)
  then show ?case
    by (subst evictOldestUntilRoom.simps) (simp add: droppedTraces_removeOldest)
qed

lemma expireLoop_eq:
  "expireLoop c es (s, nt) =
     (s\<lparr>totalSizeBytes := totalSizeBytes s - sum_list (map entry_sizeBytes (filter (\<lambda>e. \<not> c < entry_timestamp e) es)),
        totalSpanCount := totalSpanCount s
           - sum_list (map (\<lambda>e. countSpans (entry_traces e)) (filter (\<lambda>e. \<not> c < entry_timestamp e) es)),
        droppedOldest := droppedOldest s + int (length (filter (\<lambda>e. \<not> c < entry_timestamp e) es))\<rparr>,
      nt @ filter (\<lambda>e. c < entry_timestamp e) es)"
  by (induction es arbitrary: s nt) (simp_all add: algebra_simps)

lemma AddTraces_count_only:
  assumes "MaxMemoryMB (config s) = 0" "MaxTraces (config s) = int N" "0 < N"
  shows "traces (AddTraces s b now) =
           (if N \<le> length (traces s) then tl (traces s) else traces s) @ [newEntry b now]"
    and "droppedOldest (AddTraces s b now) =
           droppedOldest s + (if N \<le> length (traces s) then 1 else 0)"
    and "config (AddTraces s b now) = config s"
  using assms
  by (auto simp: AddTraces_def Let_def traces_removeOldest droppedOldest_removeOldest config_removeOldest)



lemma accounted_removeOldest: "accounted s \<Longrightarrow> accounted (removeOldest s)"
  by (auto simp: accounted_def recomputeBytes_def recomputeSpans_def removeOldest_def split: list.splits)

lemma accounted_evictOldestUntilRoom: "accounted s \<Longrightarrow> accounted (evictOldestUntilRoom s n)"
proof (induction s n rule: evictOldestUntilRoom.induct)
  case (1 s newSize)
  then show ?case
    by (subst evictOldestUntilRoom.simps) (simp add: accounted_removeOldest)
qed

lemma accounted_append:
  "accounted s \<Longrightarrow>
   accounted (s\<lparr>traces := traces s @ [newEntry b now],
      totalSizeBytes := totalSizeBytes s + estimateSize b (countSpans b),
      totalSpanCount := totalSpanCount s + countSpans b\<rparr>)"
  by (simp add: accounted_def recomputeBytes_def recomputeSpans_def newEntry_def)

lemma accounted_AddTraces: "accounted s \<Longrightarrow> accounted (AddTraces s b now)"
  unfolding AddTraces_def Let_def
  by (intro accounted_append) (simp add: accounted_removeOldest accounted_evictOldestUntilRoom)

lemma sum_list_filter_split:
  "sum_list (map f xs) = sum_list (map f (filter P xs)) + sum_list (map f (filter (\<lambda>x. \<not> P x) xs))"
  for f :: "'a \<Rightarrow> int"
  by (induction xs) simp_all

lemma expire_eq:
  "0 < TraceExpiration (config s) \<Longrightarrow>
   expireOldTracesLocked s now =
     s\<lparr>totalSizeBytes := totalSizeBytes s
          - sum_list (map entry_sizeBytes (filter (\<lambda>e. \<not> now - TraceExpiration (config s) < entry_timestamp e) (traces s))),
        totalSpanCount := totalSpanCount s
          - sum_list (map (\<lambda>e. countSpans (entry_traces e)) (filter (\<lambda>e. \<not> now - TraceExpiration (config s) < entry_timestamp e) (traces s))),
        droppedOldest := droppedOldest s + int (length (filter (\<lambda>e. \<not> now - TraceExpiration (config s) < entry_timestamp e) (traces s))),
        traces := filter (\<lambda>e. now - TraceExpiration (config s) < entry_timestamp e) (traces s)\<rparr>"
proof -
  assume pos: "0 < TraceExpiration (config s)"
  let ?c = "now - TraceExpiration (config s)"
  let ?keep = "filter (\<lambda>e. ?c < entry_timestamp e) (traces s)"
  have len: "length ?keep \<le> length (traces s)" by simp
  show ?thesis
  proof (cases "length ?keep < length (traces s)")
    case True
    then show ?thesis using pos
      by (simp add: expireOldTracesLocked_def Let_def expireLoop_eq expireCommit_def)
  next
    case False
    then have "length ?keep = length (traces s)" using len by linarith
    then have all: "?keep = traces s"
      by (metis length_filter_less filter_True nat_neq_iff)
    then have "\<forall>e\<in>set (traces s). ?c < entry_timestamp e"
      by (metis (mono_tags, lifting) filter_id_conv)
    then have none: "filter (\<lambda>e. \<not> ?c < entry_timestamp e) (traces s) = []"
      by (simp add: filter_empty_conv)
    show ?thesis using pos all none
      by (simp add: expireOldTracesLocked_def Let_def expireLoop_eq expireCommit_def)
  qed
qed

lemma accounted_expire: "accounted s \<Longrightarrow> accounted (expireOldTracesLocked s now)"
proof (cases "0 < TraceExpiration (config s)")
  case True
  assume a: "accounted s"
  let ?P = "\<lambda>e. now - TraceExpiration (config s) < entry_timestamp e"
  from a show ?thesis
    unfolding expire_eq [OF True] accounted_def recomputeBytes_def recomputeSpans_def
    using sum_list_filter_split [of entry_sizeBytes "traces s" ?P]
      sum_list_filter_split [of "\<lambda>e. countSpans (entry_traces e)" "traces s" ?P]
    by simp
next
  case False
  assume "accounted s"
  then show ?thesis using False by (simp add: expireOldTracesLocked_def)
qed

lemma accounted_applyOp: "accounted s \<Longrightarrow> accounted (applyOp s op)"
  by (cases op) (simp_all add: accounted_AddTraces GetTraces_def Let_def accounted_expire)

lemma accounted_runOps: "accounted s \<Longrightarrow> accounted (runOps s ops)"
  unfolding runOps_def
  by (induction ops arbitrary: s) (simp_all add: accounted_applyOp)

lemma accounted_New: "accounted (NewTraceStorage cfg)"
  by (simp add: accounted_def NewTraceStorage_def recomputeBytes_def recomputeSpans_def)

text \<open>
  Claim C3. After any sequence of calls on a new store, under any configuration of the
  limits, the running totals \<^verbatim>\<open>totalSizeBytes\<close> and \<^verbatim>\<open>totalSpanCount\<close> are the sums
  recomputed from the retained entries; the sequence may contain admissions (with their
  evictions) and snapshots (with their age-based expiry), and \<^verbatim>\<open>GetStats\<close> reports
  these totals.
\<close>

theorem accounting_invariant:
  "totalSizeBytes (runOps (NewTraceStorage cfg) ops) = recomputeBytes (runOps (NewTraceStorage cfg) ops)
   \<and> totalSpanCount (runOps (NewTraceStorage cfg) ops) = recomputeSpans (runOps (NewTraceStorage cfg) ops)
   \<and> fst (snd (GetStats (runOps (NewTraceStorage cfg) ops)))
       = recomputeSpans (runOps (NewTraceStorage cfg) ops)
   \<and> snd (snd (snd (snd (GetStats (runOps (NewTraceStorage cfg) ops)))))
       = real_of_int (recomputeBytes (runOps (NewTraceStorage cfg) ops)) / (1024 * 1024)"
  using accounted_runOps [OF accounted_New, of cfg ops] by (simp add: accounted_def GetStats_def)



lemma everSeen_removeOldest: "everSeen (removeOldest s) = everSeen s"
  by (simp add: everSeen_def removeOldest_def split: list.splits)

lemma everSeen_evictOldestUntilRoom: "everSeen (evictOldestUntilRoom s n) = everSeen s"
proof (induction s n rule: evictOldestUntilRoom.induct)
  case (1 s newSize)
  then show ?case
    by (subst evictOldestUntilRoom.simps) (simp add: everSeen_removeOldest)
qed

lemma everSeen_append:
  "everSeen (s\<lparr>traces := traces s @ [e], totalSizeBytes := a, totalSpanCount := b\<rparr>) = everSeen s + 1"
  by (simp add: everSeen_def)

lemma everSeen_AddTraces: "everSeen (AddTraces s b now) = everSeen s + 1"
  unfolding AddTraces_def Let_def everSeen_append
  by (simp add: everSeen_removeOldest everSeen_evictOldestUntilRoom)

lemma everSeen_expire: "everSeen (expireOldTracesLocked s now) = everSeen s"
proof (cases "0 < TraceExpiration (config s)")
  case True
  show ?thesis
    unfolding expire_eq [OF True] everSeen_def
    using sum_length_filter_compl [of "\<lambda>e. now - TraceExpiration (config s) < entry_timestamp e" "traces s"]
    by simp
next
  case False
  then show ?thesis by (simp add: expireOldTracesLocked_def)
qed

lemma droppedTraces_AddTraces: "droppedTraces (AddTraces s b now) = droppedTraces s"
  by (simp add: AddTraces_def Let_def droppedTraces_removeOldest droppedTraces_evictOldestUntilRoom)

lemma droppedTraces_expire: "droppedTraces (expireOldTracesLocked s now) = droppedTraces s"
  by (cases "0 < TraceExpiration (config s)") (simp_all add: expire_eq, simp add: expireOldTracesLocked_def)

lemma applyOp_counters:
  "droppedTraces (applyOp s op) = droppedTraces s"
  "everSeen (applyOp s op) = everSeen s + (if isAdmit op then 1 else 0)"
  by (cases op; simp add: droppedTraces_AddTraces droppedTraces_expire GetTraces_def Let_def
      everSeen_AddTraces everSeen_expire)+

lemma runOps_counters:
  "droppedTraces (runOps s ops) = droppedTraces s \<and>
   everSeen (runOps s ops) = everSeen s + int (length (filter isAdmit ops))"
  unfolding runOps_def
  by (induction ops arbitrary: s) (simp_all add: applyOp_counters)

text \<open>
  Claim C10. After any sequence of admissions, snapshots and statistics reads on a new
  store, \<^verbatim>\<open>droppedTraces\<close>, the third value of \<^verbatim>\<open>GetStats\<close>, is 0: no operation
  increments it. Every drop, by a limit or by age, is counted in \<^verbatim>\<open>droppedOldest\<close>,
  which is the number of batches admitted minus the number still retained.
\<close>

theorem droppedTraces_never_counts:
  "droppedTraces (runOps (NewTraceStorage cfg) ops) = 0
   \<and> fst (snd (snd (GetStats (runOps (NewTraceStorage cfg) ops)))) = 0
   \<and> droppedOldest (runOps (NewTraceStorage cfg) ops)
       = int (length (filter isAdmit ops)) - int (length (traces (runOps (NewTraceStorage cfg) ops)))"
  using runOps_counters [of "NewTraceStorage cfg" ops]
  by (simp add: everSeen_def GetStats_def NewTraceStorage_def)

lemma config_AddTraces: "config (AddTraces s b now) = config s"
  by (simp add: AddTraces_def Let_def config_removeOldest config_evictOldestUntilRoom)

lemma admit_count_cap:
  assumes "MaxMemoryMB (config s) = 0" "MaxTraces (config s) = int N" "0 < N"
    "length (traces s) \<le> N" "list_all isAdmit ops"
  shows "length (traces (runOps s ops)) = min N (length (traces s) + length ops)"
  using assms unfolding runOps_def
proof (induction ops arbitrary: s)
  case Nil
  then show ?case by simp
next
  case (Cons op ops)
  from Cons.prems obtain b now where op: "op = Admit b now" by (cases op) simp_all
  let ?s = "AddTraces s b now"
  have len: "length (traces ?s) = min N (length (traces s) + 1)"
    using AddTraces_count_only(1) [OF Cons.prems(1,2,3), of b now] Cons.prems(3,4)
    by (auto simp: min_def)
  have cfg: "config ?s = config s" by (rule config_AddTraces)
  have "length (traces (foldl applyOp ?s ops)) = min N (length (traces ?s) + length ops)"
    using Cons.prems by (intro Cons.IH) (simp_all add: cfg len)
  then show ?case using op len by (simp add: min_def)
qed

text \<open>
  Claim C1, as amended. With the count cap set to \<open>N \<ge> 1\<close> and no byte cap, after
  \<open>N + k\<close> admissions (\<open>k \<ge> 1\<close>) into a new store the store retains exactly \<open>N\<close>
  entries. The \<open>k\<close> evictions are counted in \<^verbatim>\<open>droppedOldest\<close>, the one counter of
  drops that the store keeps, which \<^verbatim>\<open>GetStats\<close> returns as its fourth value; the
  third value, \<^verbatim>\<open>droppedTraces\<close>, which the caller prints as the drops by limit, is 0.
\<close>

theorem count_cap:
  assumes "1 \<le> N" "1 \<le> k" "MaxTraces cfg = int N" "MaxMemoryMB cfg = 0"
    "length ops = N + k" "list_all isAdmit ops"
  shows "length (traces (runOps (NewTraceStorage cfg) ops)) = N
    \<and> GetStats (runOps (NewTraceStorage cfg) ops)
        = (int N, totalSpanCount (runOps (NewTraceStorage cfg) ops), 0, int k,
           real_of_int (totalSizeBytes (runOps (NewTraceStorage cfg) ops)) / (1024 * 1024))"
proof -
  let ?s = "runOps (NewTraceStorage cfg) ops"
  have len: "length (traces ?s) = N"
    using admit_count_cap [of "NewTraceStorage cfg" N ops] assms
    by (simp add: NewTraceStorage_def)
  have adm: "filter isAdmit ops = ops" using assms(6) by (simp add: list_all_iff)
  have "everSeen ?s = int (N + k)" "droppedTraces ?s = 0"
    using runOps_counters [of "NewTraceStorage cfg" ops] adm assms(5)
    by (simp_all add: everSeen_def NewTraceStorage_def)
  then show ?thesis using len by (simp add: GetStats_def everSeen_def)
qed


theorem count_cap_witness:
  "list_all isAdmit [Admit [] 1, Admit [] 2, Admit [] 3]
   \<and> length (traces (runOps (NewTraceStorage \<lparr>MaxTraces = 2, MaxMemoryMB = 0, TraceExpiration = 0\<rparr>)
         [Admit [] 1, Admit [] 2, Admit [] 3])) = 2
   \<and> fst (snd (snd (snd (GetStats (runOps
         (NewTraceStorage \<lparr>MaxTraces = 2, MaxMemoryMB = 0, TraceExpiration = 0\<rparr>)
         [Admit [] 1, Admit [] 2, Admit [] 3]))))) = 1"
  using count_cap [of 2 1 "\<lparr>MaxTraces = 2, MaxMemoryMB = 0, TraceExpiration = 0\<rparr>"
      "[Admit [] 1, Admit [] 2, Admit [] 3]"]
  by simp

text \<open>
  Claim C1 as stated fails: after three admissions under a count cap of 2 the store holds
  two entries and has evicted one, and the value that \<^verbatim>\<open>GetStats\<close> returns in the
  place of the drops by limit, the third one, is 0 and not 1.
\<close>

theorem count_cap_limit_value_stays_zero:
  "length (traces (runOps (NewTraceStorage \<lparr>MaxTraces = 2, MaxMemoryMB = 0, TraceExpiration = 0\<rparr>)
         [Admit [] 1, Admit [] 2, Admit [] 3])) = 2
   \<and> fst (snd (snd (GetStats (runOps (NewTraceStorage \<lparr>MaxTraces = 2, MaxMemoryMB = 0, TraceExpiration = 0\<rparr>)
         [Admit [] 1, Admit [] 2, Admit [] 3])))) = 0
   \<and> fst (snd (snd (GetStats (runOps (NewTraceStorage \<lparr>MaxTraces = 2, MaxMemoryMB = 0, TraceExpiration = 0\<rparr>)
         [Admit [] 1, Admit [] 2, Admit [] 3])))) \<noteq> 1"
  by (simp add: runOps_def AddTraces_def Let_def NewTraceStorage_def GetStats_def
      removeOldest_def)




lemma countSpans_inner_mono:
  "a \<le> foldl (\<lambda>count ss. count + int (length (ssSpans ss))) a sss"
proof (induction sss arbitrary: a)
  case Nil
  show ?case by simp
next
  case (Cons ss sss)
  show ?case using Cons [of "a + int (length (ssSpans ss))"] by simp
qed

lemma countSpans_outer_mono:
  "a \<le> foldl (\<lambda>count rs. foldl (\<lambda>count ss. count + int (length (ssSpans ss))) count (rsScopeSpans rs)) a trs"
proof (induction trs arbitrary: a)
  case Nil
  show ?case by simp
next
  case (Cons rs trs)
  show ?case using Cons [of "foldl (\<lambda>count ss. count + int (length (ssSpans ss))) a (rsScopeSpans rs)"]
      countSpans_inner_mono [of a "rsScopeSpans rs"]
    by simp
qed

lemma countSpans_nonneg: "0 \<le> countSpans trs"
  unfolding countSpans_def by (rule countSpans_outer_mono)









lemma GetTraces_expiry:
  assumes "0 < TraceExpiration (config s)"
  shows "traces (fst (GetTraces s now))
       = filter (\<lambda>e. now - TraceExpiration (config s) < entry_timestamp e) (traces s)"
    "totalSizeBytes (fst (GetTraces s now)) = totalSizeBytes s
       - sum_list (map entry_sizeBytes
           (filter (\<lambda>e. entry_timestamp e \<le> now - TraceExpiration (config s)) (traces s)))"
    "totalSpanCount (fst (GetTraces s now)) = totalSpanCount s
       - sum_list (map (\<lambda>e. countSpans (entry_traces e))
           (filter (\<lambda>e. entry_timestamp e \<le> now - TraceExpiration (config s)) (traces s)))"
    "droppedOldest (fst (GetTraces s now)) = droppedOldest s
       + int (length (filter (\<lambda>e. entry_timestamp e \<le> now - TraceExpiration (config s)) (traces s)))"
    "droppedTraces (fst (GetTraces s now)) = droppedTraces s"
    "snd (GetTraces s now) = map entry_traces (traces (fst (GetTraces s now)))"
  by (simp_all add: GetTraces_def Let_def expire_eq [OF assms] not_less)

text \<open>
  Claim C9, as amended. With a positive \<^verbatim>\<open>TraceExpiration\<close>, \<^verbatim>\<open>GetTraces\<close> keeps exactly
  the entries whose timestamp is after \<open>now - TraceExpiration\<close> and removes the others,
  so an entry received exactly \<^verbatim>\<open>TraceExpiration\<close> ago is removed too. It subtracts the
  sizes and span counts of the removed entries and adds their number to
  \<^verbatim>\<open>droppedOldest\<close>. With \<^verbatim>\<open>TraceExpiration\<close> 0 (or negative) nothing changes.
\<close>

theorem age_expiry:
  "(0 < TraceExpiration (config s) \<longrightarrow>
      traces (fst (GetTraces s now))
        = filter (\<lambda>e. now - TraceExpiration (config s) < entry_timestamp e) (traces s)
      \<and> snd (GetTraces s now) = map entry_traces (traces (fst (GetTraces s now)))
      \<and> totalSizeBytes (fst (GetTraces s now)) = totalSizeBytes s
          - sum_list (map entry_sizeBytes
              (filter (\<lambda>e. entry_timestamp e \<le> now - TraceExpiration (config s)) (traces s)))
      \<and> totalSpanCount (fst (GetTraces s now)) = totalSpanCount s
          - sum_list (map (\<lambda>e. countSpans (entry_traces e))
              (filter (\<lambda>e. entry_timestamp e \<le> now - TraceExpiration (config s)) (traces s)))
      \<and> droppedOldest (fst (GetTraces s now)) = droppedOldest s
          + int (length (filter (\<lambda>e. entry_timestamp e \<le> now - TraceExpiration (config s)) (traces s))))
   \<and> (TraceExpiration (config s) \<le> 0 \<longrightarrow> GetTraces s now = (s, map entry_traces (traces s)))"
  using GetTraces_expiry [of s now]
  by (auto simp: GetTraces_def expireOldTracesLocked_def)

text \<open>
  Claim C9 as stated fails at the boundary: an entry received at time 0 is not older than
  \<open>now - TraceExpiration\<close> when \<open>now = 10\<close> and the expiration is 10, and the snapshot removes it.
\<close>

theorem age_expiry_boundary:
  "\<not> entry_timestamp (hd (traces (AddTraces
        (NewTraceStorage \<lparr>MaxTraces = 0, MaxMemoryMB = 0, TraceExpiration = 10\<rparr>) [] 0)))
      < 10 - TraceExpiration (config (AddTraces
        (NewTraceStorage \<lparr>MaxTraces = 0, MaxMemoryMB = 0, TraceExpiration = 10\<rparr>) [] 0))
   \<and> traces (AddTraces
        (NewTraceStorage \<lparr>MaxTraces = 0, MaxMemoryMB = 0, TraceExpiration = 10\<rparr>) [] 0) \<noteq> []
   \<and> traces (fst (GetTraces (AddTraces
        (NewTraceStorage \<lparr>MaxTraces = 0, MaxMemoryMB = 0, TraceExpiration = 10\<rparr>) [] 0) 10)) = []"
  by (simp add: AddTraces_def NewTraceStorage_def newEntry_def GetTraces_def
      expireOldTracesLocked_def expireCommit_def Let_def)

theorem age_expiry_witness:
  "0 < TraceExpiration (config (runOps
        (NewTraceStorage \<lparr>MaxTraces = 0, MaxMemoryMB = 0, TraceExpiration = 10\<rparr>)
        [Admit [] 0, Admit [] 50]))
   \<and> map entry_timestamp (traces (fst (GetTraces (runOps
        (NewTraceStorage \<lparr>MaxTraces = 0, MaxMemoryMB = 0, TraceExpiration = 10\<rparr>)
        [Admit [] 0, Admit [] 50]) 55))) = [50]
   \<and> droppedOldest (fst (GetTraces (runOps
        (NewTraceStorage \<lparr>MaxTraces = 0, MaxMemoryMB = 0, TraceExpiration = 10\<rparr>)
        [Admit [] 0, Admit [] 50]) 55)) = 1
   \<and> TraceExpiration (config (runOps
        (NewTraceStorage \<lparr>MaxTraces = 0, MaxMemoryMB = 0, TraceExpiration = 0\<rparr>)
        [Admit [] 0, Admit [] 50])) \<le> 0
   \<and> map entry_timestamp (traces (fst (GetTraces (runOps
        (NewTraceStorage \<lparr>MaxTraces = 0, MaxMemoryMB = 0, TraceExpiration = 0\<rparr>)
        [Admit [] 0, Admit [] 50]) 1000000))) = [0, 50]"
  using age_expiry [of "runOps
        (NewTraceStorage \<lparr>MaxTraces = 0, MaxMemoryMB = 0, TraceExpiration = 10\<rparr>)
        [Admit [] 0, Admit [] 50]" 55]
    age_expiry [of "runOps
        (NewTraceStorage \<lparr>MaxTraces = 0, MaxMemoryMB = 0, TraceExpiration = 0\<rparr>)
        [Admit [] 0, Admit [] 50]" 1000000]
  by (simp add: runOps_def AddTraces_def NewTraceStorage_def newEntry_def Let_def)

section \<open>The store: locking\<close>

text \<open>
  Claim C4. The expiry run by \<^verbatim>\<open>GetTraces\<close> should have exclusive access. The code
  takes the read lock there, while \<^verbatim>\<open>AddTraces\<close> takes the write lock: two calls of
  \<^verbatim>\<open>GetTraces\<close> hold the mutex together, a call of \<^verbatim>\<open>GetTraces\<close> cannot enter
  while \<^verbatim>\<open>AddTraces\<close> holds it, and two expiry passes that overlap on a store with one
  expired entry of 100 bytes count it twice (total -100 bytes, two drops), where two passes
  one after the other leave total 0 and one drop.
\<close>

theorem expiry_under_read_lock:
  "lockTaken mGetTraces = RLock
   \<and> lockTaken mAddTraces = Lock
   \<and> Option.bind (acquire (lockTaken mGetTraces) unlocked) (acquire (lockTaken mGetTraces))
       = Some \<lparr>readers = 2, writer = False\<rparr>
   \<and> Option.bind (acquire (lockTaken mAddTraces) unlocked) (acquire (lockTaken mGetTraces)) = None
   \<and> traces (AddTraces (NewTraceStorage \<lparr>MaxTraces = 0, MaxMemoryMB = 0, TraceExpiration = 10\<rparr>) [] 0)
       \<noteq> []
   \<and> traces (interleavedExpiry
        (AddTraces (NewTraceStorage \<lparr>MaxTraces = 0, MaxMemoryMB = 0, TraceExpiration = 10\<rparr>) [] 0)
        100 100) = []
   \<and> totalSizeBytes (interleavedExpiry
        (AddTraces (NewTraceStorage \<lparr>MaxTraces = 0, MaxMemoryMB = 0, TraceExpiration = 10\<rparr>) [] 0)
        100 100) = - 100
   \<and> droppedOldest (interleavedExpiry
        (AddTraces (NewTraceStorage \<lparr>MaxTraces = 0, MaxMemoryMB = 0, TraceExpiration = 10\<rparr>) [] 0)
        100 100) = 2
   \<and> totalSizeBytes (fst (GetTraces (fst (GetTraces
        (AddTraces (NewTraceStorage \<lparr>MaxTraces = 0, MaxMemoryMB = 0, TraceExpiration = 10\<rparr>) [] 0)
        100)) 100)) = 0
   \<and> droppedOldest (fst (GetTraces (fst (GetTraces
        (AddTraces (NewTraceStorage \<lparr>MaxTraces = 0, MaxMemoryMB = 0, TraceExpiration = 10\<rparr>) [] 0)
        100)) 100)) = 1"
  by (simp add: unlocked_def AddTraces_def NewTraceStorage_def newEntry_def Let_def
      interleavedExpiry_def expireCommit_def GetTraces_def expireOldTracesLocked_def
      estimateSize_def countSpans_def)

section \<open>The report: properties\<close>

lemma foldl_concat_nested: "foldl f a (concat xss) = foldl (\<lambda>a xs. foldl f a xs) a xss"
  by (induction xss arbitrary: a) simp_all

lemma groupSpans_flat: "groupSpans entries = foldl addSpan [] (snapshotSpans entries)"
  by (simp add: groupSpans_def snapshotSpans_def batchSpans_def foldl_concat_nested foldl_map)

lemma map_of_addSpan:
  "map_of (addSpan m si) T =
     (if T = TraceID (si_span si)
      then Some (case map_of m T of
                   None \<Rightarrow> \<lparr>traceID = T, spans = [si]\<rparr>
                 | Some ti \<Rightarrow> ti\<lparr>spans := spans ti @ [si]\<rparr>)
      else map_of m T)"
  by (auto simp: addSpan_def Let_def map_of_map_entry map_add_def split: option.splits)

lemma distinct_addSpan: "distinct (map fst m) \<Longrightarrow> distinct (map fst (addSpan m si))"
  by (auto simp: addSpan_def Let_def distinct_map_entry map_of_eq_None_iff)

lemma map_of_foldl_addSpan:
  "map_of (foldl addSpan m sis) T =
     (case map_of m T of
        None \<Rightarrow> (if filter (\<lambda>si. TraceID (si_span si) = T) sis = [] then None
                 else Some \<lparr>traceID = T, spans = filter (\<lambda>si. TraceID (si_span si) = T) sis\<rparr>)
      | Some ti \<Rightarrow> Some (ti\<lparr>spans := spans ti @ filter (\<lambda>si. TraceID (si_span si) = T) sis\<rparr>))"
proof (induction sis arbitrary: m)
  case Nil
  show ?case by (simp split: option.splits)
next
  case (Cons si sis)
  show ?case
    unfolding foldl_Cons Cons [of "addSpan m si"] map_of_addSpan
    by (simp split: option.splits)
qed

lemma distinct_foldl_addSpan:
  "distinct (map fst m) \<Longrightarrow> distinct (map fst (foldl addSpan m sis))"
  by (induction sis arbitrary: m) (simp_all add: distinct_addSpan)

lemma distinct_groupSpans: "distinct (map fst (groupSpans entries))"
  unfolding groupSpans_flat by (rule distinct_foldl_addSpan) simp

lemma map_of_groupSpans:
  "map_of (groupSpans entries) T =
     (if filter (\<lambda>si. TraceID (si_span si) = T) (snapshotSpans entries) = [] then None
      else Some \<lparr>traceID = T,
                 spans = filter (\<lambda>si. TraceID (si_span si) = T) (snapshotSpans entries)\<rparr>)"
  unfolding groupSpans_flat map_of_foldl_addSpan by simp

lemma groupSpans_entry:
  assumes "(k, ti) \<in> set (groupSpans entries)"
  shows "ti = \<lparr>traceID = k, spans = filter (\<lambda>si. TraceID (si_span si) = k) (snapshotSpans entries)\<rparr>"
    and "spans ti \<noteq> []"
proof -
  have "map_of (groupSpans entries) k = Some ti"
    using assms distinct_groupSpans by simp
  then show "ti = \<lparr>traceID = k, spans = filter (\<lambda>si. TraceID (si_span si) = k) (snapshotSpans entries)\<rparr>"
    and "spans ti \<noteq> []"
    unfolding map_of_groupSpans by (auto split: if_splits)
qed

lemma filter_values_by_key:
  "distinct (map fst m) \<Longrightarrow> (\<forall>(k, v)\<in>set m. g v = k) \<Longrightarrow>
   filter (\<lambda>v. g v = T) (map snd m) = (case map_of m T of None \<Rightarrow> [] | Some v \<Rightarrow> [v])"
proof (induction m)
  case Nil
  show ?case by simp
next
  case (Cons p m)
  obtain k v where p: "p = (k, v)" by (cases p)
  have gv: "g v = k" using Cons.prems(2) p by simp
  have IH: "filter (\<lambda>v. g v = T) (map snd m) = (case map_of m T of None \<Rightarrow> [] | Some v \<Rightarrow> [v])"
    using Cons by simp
  show ?case
  proof (cases "k = T")
    case True
    then have "map_of m T = None" using Cons.prems(1) p by (simp add: map_of_eq_None_iff)
    then show ?thesis using IH p gv True by simp
  next
    case False
    then show ?thesis using IH p gv by simp
  qed
qed

lemma traces_for_id:
  "filter (\<lambda>ti. traceID ti = T) (map snd (groupSpans entries)) =
     (if filter (\<lambda>si. TraceID (si_span si) = T) (snapshotSpans entries) = [] then []
      else [\<lparr>traceID = T,
              spans = filter (\<lambda>si. TraceID (si_span si) = T) (snapshotSpans entries)\<rparr>])"
proof -
  have "\<forall>(k, v)\<in>set (groupSpans entries). traceID v = k"
    using groupSpans_entry(1) by fastforce
  from filter_values_by_key [OF distinct_groupSpans this, of T]
  show ?thesis unfolding map_of_groupSpans by simp
qed

lemma map_of_buildSpanMap_aux:
  "map_of (foldl (\<lambda>spanMap si. AList.update (SpanID (si_span si)) si spanMap) m sis) k
     = map_of (rev (map (\<lambda>si. (SpanID (si_span si), si)) sis) @ m) k"
  by (induction sis arbitrary: m) (simp_all add: update_conv' map_add_def split: option.splits)

lemma map_of_buildSpanMap:
  "map_of (buildSpanMap sis) k = map_of (rev (map (\<lambda>si. (SpanID (si_span si), si)) sis)) k"
  unfolding buildSpanMap_def map_of_buildSpanMap_aux by simp


text \<open>
  Claim C6, as amended. For every snapshot and every trace identifier \<open>T\<close> that occurs in
  it, grouping yields exactly one \<^verbatim>\<open>traceInfo\<close> for \<open>T\<close>, and its span list holds
  every span with that identifier from every batch, in the order of the batches and
  with repeated span identifiers kept; for a snapshot of two batches these are the spans
  of the first followed by the spans of the second. Only the lookup map that
  \<^verbatim>\<open>buildSpanTree\<close> builds keeps one record per span identifier, the last one of the
  span list it is given.
\<close>

theorem grouping_keeps_every_span:
  "filter (\<lambda>ti. traceID ti = T) (map snd (groupSpans entries)) =
     (if filter (\<lambda>si. TraceID (si_span si) = T) (snapshotSpans entries) = [] then []
      else [\<lparr>traceID = T,
              spans = filter (\<lambda>si. TraceID (si_span si) = T) (snapshotSpans entries)\<rparr>])
   \<and> snapshotSpans [e1, e2] = batchSpans e1 @ batchSpans e2
   \<and> map_of (buildSpanMap sis) k = map_of (rev (map (\<lambda>si. (SpanID (si_span si), si)) sis)) k"
  using traces_for_id [of T entries] map_of_buildSpanMap [of sis k]
  by (simp add: snapshotSpans_def)

text \<open>
  Claim C6 as stated fails: two batches that carry the same span identifier of the same
  trace leave both records in the span list of the trace; the later one does not replace
  the earlier one.
\<close>

theorem grouping_keeps_duplicates:
  "map (\<lambda>ti. (traceID ti, map (\<lambda>si. (SpanID (si_span si), StartTimestamp (si_span si))) (spans ti)))
     (map snd (groupSpans
       [newEntry [\<lparr>rsResource = [], rsScopeSpans = [\<lparr>ssScope = ([], []), ssSpans =
           [\<lparr>TraceID = ''T'', SpanID = ''01'', ParentSpanID = [], SpanName = ''first'',
             StartTimestamp = 1, EndTimestamp = 2, SpanStatus = StatusCodeUnset\<rparr>]\<rparr>]\<rparr>] 0,
        newEntry [\<lparr>rsResource = [], rsScopeSpans = [\<lparr>ssScope = ([], []), ssSpans =
           [\<lparr>TraceID = ''T'', SpanID = ''01'', ParentSpanID = [], SpanName = ''second'',
             StartTimestamp = 3, EndTimestamp = 4, SpanStatus = StatusCodeUnset\<rparr>]\<rparr>]\<rparr>] 0]))
   = [(''T'', [(''01'', 1), (''01'', 3)])]"
  by (simp add: groupSpans_def addSpan_def newEntry_def Let_def)

lemma foldl_min_start:
  "foldl (\<lambda>earliest si. if StartTimestamp (si_span si) < earliest then StartTimestamp (si_span si)
                          else earliest) a sis
     = fold min (map (\<lambda>si. StartTimestamp (si_span si)) sis) a"
  by (induction sis arbitrary: a) (simp_all add: min_def not_less)

lemma getEarliestTime_Min:
  assumes "spans ti \<noteq> []"
  shows "getEarliestTime ti = Min (set (map (\<lambda>si. StartTimestamp (si_span si)) (spans ti)))"
proof -
  from assms obtain first rest where sp: "spans ti = first # rest" by (cases "spans ti") auto
  have "getEarliestTime ti
      = fold min (map (\<lambda>si. StartTimestamp (si_span si)) rest) (StartTimestamp (si_span first))"
    by (simp add: getEarliestTime_def sp foldl_min_start)
  also have "\<dots> = Min (set (StartTimestamp (si_span first) # map (\<lambda>si. StartTimestamp (si_span si)) rest))"
    by (rule Min.set_eq_fold [symmetric])
  finally show ?thesis by (simp add: sp)
qed

lemma rangeOrder_id: "rangeOrder (\<lambda>m. m)"
  by (simp add: rangeOrder_def)

lemma rangeOrder_rev: "rangeOrder rev"
  by (simp add: rangeOrder_def)

lemma sortSlice_permutation_eq:
  assumes "mset xs = mset ys" "inj_on key (set xs)"
  shows "sortSlice key xs = sortSlice key ys"
  unfolding sortSlice_def
  using assms by (intro sort_key_inj_key_eq) simp_all

lemma sortSlice_sorted_input: "sorted (map key xs) \<Longrightarrow> sortSlice key xs = xs"
  unfolding sortSlice_def by (rule sort_key_id_if_sorted)

text \<open>
  Every arrangement of the grouped traces that is ordered by earliest start time is the
  output for some order of visit of the map, so the outputs over all orders of visit are
  the outputs of any sort.
\<close>

lemma every_sorted_order_is_reached:
  assumes "sorted (map getEarliestTime ys)" "mset ys = mset (map snd (groupSpans entries))"
  shows "\<exists>ord. rangeOrder ord \<and> sortedTraces ord entries = ys"
proof -
  let ?G = "groupSpans entries"
  let ?zs = "map (\<lambda>ti. (traceID ti, ti)) ys"
  let ?ord = "\<lambda>m. if m = ?G then ?zs else m"
  have "map (\<lambda>p. (traceID (snd p), snd p)) ?G = ?G"
  proof (rule map_idI)
    fix p assume "p \<in> set ?G"
    then have "(fst p, snd p) \<in> set ?G" by simp
    from groupSpans_entry(1) [OF this] have "traceID (snd p) = fst p" by simp
    then show "(traceID (snd p), snd p) = p" by (simp add: prod_eq_iff)
  qed
  then have "mset ?G = mset (map (\<lambda>ti. (traceID ti, ti)) (map snd ?G))"
    by (simp add: comp_def)
  also have "\<dots> = image_mset (\<lambda>ti. (traceID ti, ti)) (mset (map snd ?G))"
    by (rule mset_map)
  also have "\<dots> = image_mset (\<lambda>ti. (traceID ti, ti)) (mset ys)"
    by (simp only: assms(2))
  also have "\<dots> = mset ?zs" by (rule mset_map [symmetric])
  finally have "mset ?zs = mset ?G" by simp
  then have "rangeOrder ?ord" by (simp add: rangeOrder_def)
  moreover have "sortedTraces ?ord entries = ys"
    using assms(1) by (simp add: sortedTraces_def comp_def sortSlice_sorted_input)
  ultimately show ?thesis by blast
qed

text \<open>
  Claim C8, as amended. Whatever the order in which the map of traces is visited, the
  output lists every trace once, ordered by its earliest start time ascending, the
  minimum over its spans. Traces with the same earliest start time are not ordered by
  trace identifier; when the earliest start times differ pairwise, the output is the
  same for every order of visit.
\<close>

theorem traces_sorted_by_earliest:
  assumes "rangeOrder ord"
  shows "sorted (map getEarliestTime (sortedTraces ord entries))
    \<and> mset (sortedTraces ord entries) = mset (map snd (groupSpans entries))
    \<and> (\<forall>ti\<in>set (sortedTraces ord entries).
          getEarliestTime ti = Min (set (map (\<lambda>si. StartTimestamp (si_span si)) (spans ti))))
    \<and> (rangeOrder ord' \<and> distinct (map getEarliestTime (map snd (groupSpans entries)))
         \<longrightarrow> sortedTraces ord' entries = sortedTraces ord entries)"
proof (intro conjI ballI impI)
  show "sorted (map getEarliestTime (sortedTraces ord entries))"
    by (simp add: sortedTraces_def sortSlice_def)
  show perm: "mset (sortedTraces ord entries) = mset (map snd (groupSpans entries))"
    using assms by (simp add: sortedTraces_def sortSlice_def rangeOrder_def)
  show "getEarliestTime ti = Min (set (map (\<lambda>si. StartTimestamp (si_span si)) (spans ti)))"
    if "ti \<in> set (sortedTraces ord entries)" for ti
  proof -
    have "ti \<in> set (map snd (groupSpans entries))"
      using that perm by (metis set_mset_mset)
    then obtain k where "(k, ti) \<in> set (groupSpans entries)" by auto
    then have "spans ti \<noteq> []" by (rule groupSpans_entry(2))
    then show ?thesis by (rule getEarliestTime_Min)
  qed
  show "sortedTraces ord' entries = sortedTraces ord entries"
    if h: "rangeOrder ord' \<and> distinct (map getEarliestTime (map snd (groupSpans entries)))"
  proof -
    have m: "mset (map snd (ord' (groupSpans entries))) = mset (map snd (ord (groupSpans entries)))"
      using h assms by (simp add: rangeOrder_def)
    have "inj_on getEarliestTime (set (map snd (groupSpans entries)))"
      using h distinct_map [of getEarliestTime "map snd (groupSpans entries)"] by blast
    moreover have "set (map snd (ord' (groupSpans entries))) = set (map snd (groupSpans entries))"
      using h by (metis rangeOrder_def mset_map set_mset_mset)
    ultimately have "inj_on getEarliestTime (set (map snd (ord' (groupSpans entries))))" by simp
    from sortSlice_permutation_eq [OF m this] show ?thesis by (simp add: sortedTraces_def)
  qed
qed


text \<open>
  Claim C8 as stated fails: two traces \<open>b\<close> and \<open>a\<close> with the same earliest start time
  come out as \<open>b, a\<close> under one order of visit of the map and as \<open>a, b\<close> under another.
\<close>

theorem equal_times_follow_iteration_order:
  "rangeOrder (\<lambda>m :: (string \<times> traceInfo) list. m)
   \<and> rangeOrder (rev :: (string \<times> traceInfo) list \<Rightarrow> (string \<times> traceInfo) list)
   \<and> map traceID (sortedTraces (\<lambda>m. m)
       [newEntry [\<lparr>rsResource = [], rsScopeSpans = [\<lparr>ssScope = ([], []), ssSpans =
           [\<lparr>TraceID = ''b'', SpanID = ''01'', ParentSpanID = [], SpanName = [],
             StartTimestamp = 5, EndTimestamp = 6, SpanStatus = StatusCodeUnset\<rparr>]\<rparr>]\<rparr>] 0,
        newEntry [\<lparr>rsResource = [], rsScopeSpans = [\<lparr>ssScope = ([], []), ssSpans =
           [\<lparr>TraceID = ''a'', SpanID = ''02'', ParentSpanID = [], SpanName = [],
             StartTimestamp = 5, EndTimestamp = 6, SpanStatus = StatusCodeUnset\<rparr>]\<rparr>]\<rparr>] 0]) = [''b'', ''a'']
   \<and> map traceID (sortedTraces rev
       [newEntry [\<lparr>rsResource = [], rsScopeSpans = [\<lparr>ssScope = ([], []), ssSpans =
           [\<lparr>TraceID = ''b'', SpanID = ''01'', ParentSpanID = [], SpanName = [],
             StartTimestamp = 5, EndTimestamp = 6, SpanStatus = StatusCodeUnset\<rparr>]\<rparr>]\<rparr>] 0,
        newEntry [\<lparr>rsResource = [], rsScopeSpans = [\<lparr>ssScope = ([], []), ssSpans =
           [\<lparr>TraceID = ''a'', SpanID = ''02'', ParentSpanID = [], SpanName = [],
             StartTimestamp = 5, EndTimestamp = 6, SpanStatus = StatusCodeUnset\<rparr>]\<rparr>]\<rparr>] 0]) = [''a'', ''b'']"
  by (simp add: rangeOrder_def sortedTraces_def sortSlice_def groupSpans_def addSpan_def
      newEntry_def getEarliestTime_def Let_def)

theorem traces_sorted_by_earliest_witness:
  "rangeOrder (\<lambda>m :: (string \<times> traceInfo) list. m)
   \<and> rangeOrder (rev :: (string \<times> traceInfo) list \<Rightarrow> (string \<times> traceInfo) list)
   \<and> distinct (map getEarliestTime (map snd (groupSpans
       [newEntry [\<lparr>rsResource = [], rsScopeSpans = [\<lparr>ssScope = ([], []), ssSpans =
           [\<lparr>TraceID = ''b'', SpanID = ''01'', ParentSpanID = [], SpanName = [],
             StartTimestamp = 5, EndTimestamp = 6, SpanStatus = StatusCodeUnset\<rparr>]\<rparr>]\<rparr>] 0,
        newEntry [\<lparr>rsResource = [], rsScopeSpans = [\<lparr>ssScope = ([], []), ssSpans =
           [\<lparr>TraceID = ''a'', SpanID = ''02'', ParentSpanID = [], SpanName = [],
             StartTimestamp = 7, EndTimestamp = 8, SpanStatus = StatusCodeUnset\<rparr>]\<rparr>]\<rparr>] 0])))
   \<and> map traceID (sortedTraces (\<lambda>m. m)
       [newEntry [\<lparr>rsResource = [], rsScopeSpans = [\<lparr>ssScope = ([], []), ssSpans =
           [\<lparr>TraceID = ''b'', SpanID = ''01'', ParentSpanID = [], SpanName = [],
             StartTimestamp = 5, EndTimestamp = 6, SpanStatus = StatusCodeUnset\<rparr>]\<rparr>]\<rparr>] 0,
        newEntry [\<lparr>rsResource = [], rsScopeSpans = [\<lparr>ssScope = ([], []), ssSpans =
           [\<lparr>TraceID = ''a'', SpanID = ''02'', ParentSpanID = [], SpanName = [],
             StartTimestamp = 7, EndTimestamp = 8, SpanStatus = StatusCodeUnset\<rparr>]\<rparr>]\<rparr>] 0]) = [''b'', ''a'']
   \<and> sortedTraces rev
       [newEntry [\<lparr>rsResource = [], rsScopeSpans = [\<lparr>ssScope = ([], []), ssSpans =
           [\<lparr>TraceID = ''b'', SpanID = ''01'', ParentSpanID = [], SpanName = [],
             StartTimestamp = 5, EndTimestamp = 6, SpanStatus = StatusCodeUnset\<rparr>]\<rparr>]\<rparr>] 0,
        newEntry [\<lparr>rsResource = [], rsScopeSpans = [\<lparr>ssScope = ([], []), ssSpans =
           [\<lparr>TraceID = ''a'', SpanID = ''02'', ParentSpanID = [], SpanName = [],
             StartTimestamp = 7, EndTimestamp = 8, SpanStatus = StatusCodeUnset\<rparr>]\<rparr>]\<rparr>] 0]
     = sortedTraces (\<lambda>m. m)
       [newEntry [\<lparr>rsResource = [], rsScopeSpans = [\<lparr>ssScope = ([], []), ssSpans =
           [\<lparr>TraceID = ''b'', SpanID = ''01'', ParentSpanID = [], SpanName = [],
             StartTimestamp = 5, EndTimestamp = 6, SpanStatus = StatusCodeUnset\<rparr>]\<rparr>]\<rparr>] 0,
        newEntry [\<lparr>rsResource = [], rsScopeSpans = [\<lparr>ssScope = ([], []), ssSpans =
           [\<lparr>TraceID = ''a'', SpanID = ''02'', ParentSpanID = [], SpanName = [],
             StartTimestamp = 7, EndTimestamp = 8, SpanStatus = StatusCodeUnset\<rparr>]\<rparr>]\<rparr>] 0]"
proof -
  have d: "distinct (map getEarliestTime (map snd (groupSpans
       [newEntry [\<lparr>rsResource = [], rsScopeSpans = [\<lparr>ssScope = ([], []), ssSpans =
           [\<lparr>TraceID = ''b'', SpanID = ''01'', ParentSpanID = [], SpanName = [],
             StartTimestamp = 5, EndTimestamp = 6, SpanStatus = StatusCodeUnset\<rparr>]\<rparr>]\<rparr>] 0,
        newEntry [\<lparr>rsResource = [], rsScopeSpans = [\<lparr>ssScope = ([], []), ssSpans =
           [\<lparr>TraceID = ''a'', SpanID = ''02'', ParentSpanID = [], SpanName = [],
             StartTimestamp = 7, EndTimestamp = 8, SpanStatus = StatusCodeUnset\<rparr>]\<rparr>]\<rparr>] 0])))"
    by (simp add: groupSpans_def addSpan_def newEntry_def getEarliestTime_def Let_def)
  have o: "map traceID (sortedTraces (\<lambda>m. m)
       [newEntry [\<lparr>rsResource = [], rsScopeSpans = [\<lparr>ssScope = ([], []), ssSpans =
           [\<lparr>TraceID = ''b'', SpanID = ''01'', ParentSpanID = [], SpanName = [],
             StartTimestamp = 5, EndTimestamp = 6, SpanStatus = StatusCodeUnset\<rparr>]\<rparr>]\<rparr>] 0,
        newEntry [\<lparr>rsResource = [], rsScopeSpans = [\<lparr>ssScope = ([], []), ssSpans =
           [\<lparr>TraceID = ''a'', SpanID = ''02'', ParentSpanID = [], SpanName = [],
             StartTimestamp = 7, EndTimestamp = 8, SpanStatus = StatusCodeUnset\<rparr>]\<rparr>]\<rparr>] 0]) = [''b'', ''a'']"
    by (simp add: sortedTraces_def sortSlice_def groupSpans_def addSpan_def
      newEntry_def getEarliestTime_def Let_def)
  from traces_sorted_by_earliest [OF rangeOrder_id, of
       "[newEntry [\<lparr>rsResource = [], rsScopeSpans = [\<lparr>ssScope = ([], []), ssSpans =
           [\<lparr>TraceID = ''b'', SpanID = ''01'', ParentSpanID = [], SpanName = [],
             StartTimestamp = 5, EndTimestamp = 6, SpanStatus = StatusCodeUnset\<rparr>]\<rparr>]\<rparr>] 0,
        newEntry [\<lparr>rsResource = [], rsScopeSpans = [\<lparr>ssScope = ([], []), ssSpans =
           [\<lparr>TraceID = ''a'', SpanID = ''02'', ParentSpanID = [], SpanName = [],
             StartTimestamp = 7, EndTimestamp = 8, SpanStatus = StatusCodeUnset\<rparr>]\<rparr>]\<rparr>] 0]" rev]
    d o rangeOrder_rev rangeOrder_id
  show ?thesis by blast
qed

subsection \<open>Span trees\<close>

lemma those_eq_Some: "those xs = Some ys \<longleftrightarrow> xs = map Some ys"
  by (induction xs arbitrary: ys) (auto split: option.splits)

lemma those_eq_None: "those xs = None \<longleftrightarrow> None \<in> set xs"
  by (induction xs) (auto split: option.splits)

lemma map_Some_elem:
  "map g xs = map Some ys \<Longrightarrow> y \<in> set ys \<Longrightarrow> \<exists>x\<in>set xs. g x = Some y"
  by (induction xs arbitrary: ys) auto

lemma buildChildren_Some_root:
  "buildChildren fuel ord si d sm = Some t \<Longrightarrow> node_spanInfo t = si \<and> node_depth t = d"
  by (cases fuel) (auto simp: buildChildren.simps Let_def split: option.splits)

lemma matching_perm:
  assumes "rangeOrder visit"
  shows "mset (filter P (map snd (visit sm))) = mset (filter P (map snd sm))"
proof -
  have "mset (visit sm) = mset sm" using assms by (simp add: rangeOrder_def)
  then have "mset (map snd (visit sm)) = mset (map snd sm)" by (metis mset_map)
  then show ?thesis by (metis mset_filter)
qed

lemma buildChildren_childrenSorted:
  assumes "\<forall>p. rangeOrder (ord p)"
  shows "buildChildren fuel ord si d sm = Some t \<Longrightarrow> childrenSorted sm t"
proof (induction fuel arbitrary: si d t)
  case 0
  then show ?case by (simp add: buildChildren.simps)
next
  case (Suc fuel)
  let ?p = "SpanID (si_span si)"
  let ?matching = "filter (\<lambda>c. ParentSpanID (si_span c) = ?p) (map snd (ord ?p sm))"
  let ?g = "\<lambda>c. buildChildren fuel ord c (d + 1) sm"
  from Suc.prems obtain kids where kids: "those (map ?g ?matching) = Some kids"
    and t: "t = Node si (sortSlice (\<lambda>child. StartTimestamp (si_span (node_spanInfo child))) kids) d"
    by (auto simp: buildChildren.simps Let_def split: option.splits)
  from kids have eq: "map ?g ?matching = map Some kids" by (simp add: those_eq_Some)
  have each: "\<And>k. k \<in> set kids \<Longrightarrow> \<exists>c. ?g c = Some k"
  proof -
    fix k assume "k \<in> set kids"
    then have "Some k \<in> set (map ?g ?matching)" unfolding eq by simp
    then show "\<exists>c. ?g c = Some k" by auto
  qed
  have infos: "map node_spanInfo kids = ?matching"
  proof -
    have "length kids = length ?matching" using eq by (metis length_map)
    moreover have "\<And>i. i < length kids \<Longrightarrow> node_spanInfo (kids ! i) = ?matching ! i"
    proof -
      fix i assume i: "i < length kids"
      then have "map ?g ?matching ! i = Some (kids ! i)" unfolding eq by simp
      then have "?g (?matching ! i) = Some (kids ! i)"
        using i \<open>length kids = length ?matching\<close> by simp
      then show "node_spanInfo (kids ! i) = ?matching ! i"
        using buildChildren_Some_root by blast
    qed
    ultimately show ?thesis by (simp add: list_eq_iff_nth_eq)
  qed
  have "mset (map node_spanInfo kids)
      = mset (filter (\<lambda>c. ParentSpanID (si_span c) = ?p) (map snd sm))"
    unfolding infos using assms by (intro matching_perm) blast
  moreover have "\<forall>k\<in>set kids. node_depth k = d + 1 \<and> childrenSorted sm k"
    using each Suc.IH buildChildren_Some_root by blast
  ultimately show ?case
    unfolding t by (simp add: sortSlice_def)
qed

lemma buildChildren_order_irrelevant:
  assumes "\<forall>p. rangeOrder (ord1 p)" "\<forall>p. rangeOrder (ord2 p)"
    and inj: "inj_on (\<lambda>si. StartTimestamp (si_span si)) (snd ` set sm)"
  shows "buildChildren fuel ord1 si d sm = buildChildren fuel ord2 si d sm"
proof (induction fuel arbitrary: si d)
  case 0
  show ?case by (simp add: buildChildren.simps)
next
  case (Suc fuel)
  let ?p = "SpanID (si_span si)"
  let ?P = "\<lambda>c. ParentSpanID (si_span c) = ?p"
  let ?m1 = "filter ?P (map snd (ord1 ?p sm))"
  let ?m2 = "filter ?P (map snd (ord2 ?p sm))"
  let ?g = "\<lambda>c. buildChildren fuel ord1 c (d + 1) sm"
  let ?key = "\<lambda>child. StartTimestamp (si_span (node_spanInfo child))"
  have g2: "(\<lambda>c. buildChildren fuel ord2 c (d + 1) sm) = ?g" using Suc.IH by simp
  have r1: "rangeOrder (ord1 ?p)" and r2: "rangeOrder (ord2 ?p)"
    using assms(1,2) by blast+
  have perm: "mset ?m1 = mset ?m2"
    using matching_perm [OF r1, of ?P sm] matching_perm [OF r2, of ?P sm] by simp
  then have sets: "set ?m1 = set ?m2" by (metis set_mset_mset)
  have sub: "set ?m1 \<subseteq> snd ` set sm"
  proof -
    have "mset ?m1 = mset (filter ?P (map snd sm))" using r1 by (rule matching_perm)
    then have "set ?m1 = set (filter ?P (map snd sm))" by (metis set_mset_mset)
    then show ?thesis by auto
  qed
  show ?case
  proof (cases "those (map ?g ?m1)")
    case None
    then have "None \<in> set (map ?g ?m1)" by (simp add: those_eq_None)
    then have "None \<in> set (map ?g ?m2)" using sets by auto
    then have "those (map ?g ?m2) = None" by (simp add: those_eq_None)
    then show ?thesis using None by (simp add: buildChildren.simps Let_def g2)
  next
    case (Some kids1)
    then have e1: "map ?g ?m1 = map Some kids1" by (simp add: those_eq_Some)
    have "None \<notin> set (map ?g ?m2)"
    proof
      assume "None \<in> set (map ?g ?m2)"
      then have "None \<in> set (map ?g ?m1)" using sets by auto
      then show False unfolding e1 by auto
    qed
    then obtain kids2 where k2: "those (map ?g ?m2) = Some kids2"
      by (cases "those (map ?g ?m2)") (auto simp: those_eq_None)
    then have e2: "map ?g ?m2 = map Some kids2" by (simp add: those_eq_Some)
    have "map the (map ?g ?m1) = kids1" unfolding e1 by (simp add: comp_def)
    then have d1: "kids1 = map (\<lambda>c. the (?g c)) ?m1" by (simp add: comp_def)
    have "map the (map ?g ?m2) = kids2" unfolding e2 by (simp add: comp_def)
    then have d2: "kids2 = map (\<lambda>c. the (?g c)) ?m2" by (simp add: comp_def)
    have mk: "mset kids1 = mset kids2"
      unfolding d1 d2 mset_map by (simp only: perm)
    have injk: "inj_on ?key (set kids1)"
    proof (rule inj_onI)
      fix a b assume a: "a \<in> set kids1" and b: "b \<in> set kids1" and ab: "?key a = ?key b"
      from map_Some_elem [OF e1 a] obtain ca where ca: "ca \<in> set ?m1" "?g ca = Some a"
        by blast
      from map_Some_elem [OF e1 b] obtain cb where cb: "cb \<in> set ?m1" "?g cb = Some b"
        by blast
      have "node_spanInfo a = ca" "node_spanInfo b = cb"
        using ca(2) cb(2) buildChildren_Some_root by blast+
      then have "StartTimestamp (si_span ca) = StartTimestamp (si_span cb)" using ab by simp
      moreover have "ca \<in> snd ` set sm" "cb \<in> snd ` set sm" using ca(1) cb(1) sub by blast+
      ultimately have "ca = cb" using inj by (auto simp: inj_on_def)
      then show "a = b" using ca(2) cb(2) by simp
    qed
    have "sortSlice ?key kids1 = sortSlice ?key kids2"
      unfolding sortSlice_def using mk injk by (intro sort_key_inj_key_eq) simp_all
    then show ?thesis using Some k2 by (simp add: buildChildren.simps Let_def g2)
  qed
qed

lemma set_update_subset: "set (AList.update k v al) \<subseteq> insert (k, v) (set al)"
  by (induction al) auto

lemma length_update_le: "length (AList.update k v al) \<le> Suc (length al)"
  by (induction al) auto

lemma buildSpanMap_aux:
  "set (foldl (\<lambda>spanMap si. AList.update (SpanID (si_span si)) si spanMap) m sis)
     \<subseteq> set m \<union> (\<lambda>si. (SpanID (si_span si), si)) ` set sis
   \<and> length (foldl (\<lambda>spanMap si. AList.update (SpanID (si_span si)) si spanMap) m sis)
     \<le> length m + length sis"
proof (induction sis arbitrary: m)
  case Nil
  show ?case by simp
next
  case (Cons si sis)
  let ?m = "AList.update (SpanID (si_span si)) si m"
  have "set ?m \<subseteq> insert (SpanID (si_span si), si) (set m)" by (rule set_update_subset)
  moreover have "length ?m \<le> Suc (length m)" by (rule length_update_le)
  ultimately show ?case using Cons [of ?m] by auto
qed

lemma buildSpanMap_keys: "(k, c) \<in> set (buildSpanMap sis) \<Longrightarrow> k = SpanID (si_span c)"
  using buildSpanMap_aux [of "[]" sis] by (auto simp: buildSpanMap_def)

lemma buildSpanMap_length: "length (buildSpanMap sis) \<le> length sis"
  using buildSpanMap_aux [of "[]" sis] by (simp add: buildSpanMap_def)

lemma map_None_elem: "None \<in> set (map g xs) \<Longrightarrow> \<exists>x\<in>set xs. g x = None"
  by (induction xs) auto

lemma buildChildren_enough_fuel:
  fixes r :: "string \<Rightarrow> nat"
  assumes ord: "\<forall>p. rangeOrder (ord p)"
    and keys: "\<forall>(k, c)\<in>set sm. k = SpanID (si_span c)"
    and rank: "\<forall>c\<in>snd ` set sm. r (ParentSpanID (si_span c)) < r (SpanID (si_span c))"
  shows "card {k \<in> fst ` set sm. r (SpanID (si_span si)) < r k} < fuel
         \<Longrightarrow> \<exists>t. buildChildren fuel ord si d sm = Some t"
proof (induction fuel arbitrary: si d)
  case 0
  then show ?case by (simp add: buildChildren.simps)
next
  case (Suc fuel)
  let ?p = "SpanID (si_span si)"
  let ?P = "\<lambda>c. ParentSpanID (si_span c) = ?p"
  let ?matching = "filter ?P (map snd (ord ?p sm))"
  let ?g = "\<lambda>c. buildChildren fuel ord c (d + 1) sm"
  let ?D = "\<lambda>x. {k \<in> fst ` set sm. r x < r k}"
  have r1: "rangeOrder (ord ?p)" using ord by blast
  have "mset ?matching = mset (filter ?P (map snd sm))" using r1 by (rule matching_perm)
  then have set_matching: "set ?matching = set (filter ?P (map snd sm))" by (metis set_mset_mset)
  have all_some: "\<forall>c\<in>set ?matching. \<exists>t. ?g c = Some t"
  proof
    fix c assume "c \<in> set ?matching"
    then have c: "c \<in> snd ` set sm" "ParentSpanID (si_span c) = ?p"
      unfolding set_matching by auto
    then have lt: "r ?p < r (SpanID (si_span c))" using rank by force
    from c(1) obtain k where "(k, c) \<in> set sm" by auto
    then have key: "SpanID (si_span c) \<in> fst ` set sm" using keys by force
    have "?D (SpanID (si_span c)) \<subseteq> ?D ?p" using lt by auto
    moreover have "SpanID (si_span c) \<in> ?D ?p" "SpanID (si_span c) \<notin> ?D (SpanID (si_span c))"
      using key lt by auto
    ultimately have "?D (SpanID (si_span c)) \<subset> ?D ?p" by blast
    moreover have "finite (?D ?p)" by simp
    ultimately have "card (?D (SpanID (si_span c))) < card (?D ?p)"
      by (rule psubset_card_mono [rotated])
    then have "card (?D (SpanID (si_span c))) < fuel" using Suc.prems by linarith
    then show "\<exists>t. ?g c = Some t" by (rule Suc.IH)
  qed
  have "None \<notin> set (map ?g ?matching)"
  proof
    assume "None \<in> set (map ?g ?matching)"
    then obtain c where "c \<in> set ?matching" "?g c = None"
      using map_None_elem by blast
    then show False using all_some by (metis option.distinct(1))
  qed
  then obtain kids where "those (map ?g ?matching) = Some kids"
    by (cases "those (map ?g ?matching)") (auto simp: those_eq_None)
  then show ?case by (simp add: buildChildren.simps Let_def)
qed

lemma buildChildren_more_fuel:
  "buildChildren fuel ord si d sm = Some t \<Longrightarrow> buildChildren (Suc fuel) ord si d sm = Some t"
proof (induction fuel arbitrary: si d t)
  case 0
  then show ?case by (simp add: buildChildren.simps)
next
  case (Suc fuel)
  let ?p = "SpanID (si_span si)"
  let ?matching = "filter (\<lambda>c. ParentSpanID (si_span c) = ?p) (map snd (ord ?p sm))"
  let ?g = "\<lambda>c. buildChildren fuel ord c (d + 1) sm"
  let ?g' = "\<lambda>c. buildChildren (Suc fuel) ord c (d + 1) sm"
  from Suc.prems obtain kids where kids: "those (map ?g ?matching) = Some kids"
    and t: "t = Node si (sortSlice (\<lambda>child. StartTimestamp (si_span (node_spanInfo child))) kids) d"
    by (auto simp: buildChildren.simps Let_def split: option.splits)
  from kids have eq: "map ?g ?matching = map Some kids" by (simp add: those_eq_Some)
  have mm: "map ?g' ?matching = map ?g ?matching"
  proof (rule map_cong [OF refl])
    fix c assume "c \<in> set ?matching"
    then have "?g c \<in> set (map Some kids)" unfolding eq [symmetric] by (simp del: set_filter)
    then obtain k where "?g c = Some k" by auto
    then show "?g' c = ?g c" using Suc.IH [of c "d + 1" k] by simp
  qed
  have "those (map ?g' ?matching) = Some kids" unfolding mm by (rule kids)
  then show ?case
    unfolding t by (subst buildChildren.simps) (simp add: Let_def)
qed

lemma buildChildren_fuel_mono:
  assumes "fuel \<le> fuel'" "buildChildren fuel ord si d sm = Some t"
  shows "buildChildren fuel' ord si d sm = Some t"
  using assms
proof (induction fuel' rule: dec_induct)
  case base
  then show ?case .
next
  case (step n)
  from step.IH [OF step.prems] show ?case by (rule buildChildren_more_fuel)
qed

lemma self_parent_never_returns:
  assumes "SpanID (si_span si) = k" "ParentSpanID (si_span c) = k" "SpanID (si_span c) = k"
  shows "buildChildren fuel (\<lambda>p m. m) si d [(k, c)] = None"
  using assms(1)
proof (induction fuel arbitrary: si d)
  case 0
  show ?case by (simp add: buildChildren.simps)
next
  case (Suc fuel)
  have "buildChildren fuel (\<lambda>p m. m) c (d + 1) [(k, c)] = None"
    using assms(3) by (rule Suc.IH)
  then show ?case using Suc.prems assms(2) by (subst buildChildren.simps) (simp add: Let_def)
qed

lemma buildSpanTree_root:
  "buildSpanTree zp fuel ord ti =
     (if find (\<lambda>si. ParentSpanID (si_span si) = []) (spans ti) = None \<and> zp then None
      else buildChildren fuel ord (rootOf ti) 0 (buildSpanMap (spans ti)))"
  by (simp add: buildSpanTree_def rootOf_def Let_def)

lemma treeSize_descendants: "treeSize t = Suc (length (descendants t))"
proof (induction t)
  case (Node si kids d)
  have "sum_list (map treeSize kids) = sum_list (map (\<lambda>k. Suc (length (descendants k))) kids)"
    using Node by (intro arg_cong [of _ _ sum_list] map_cong) simp_all
  then show ?case by (simp add: length_concat comp_def)
qed

lemma sum_list_indicator:
  "sum_list (map (\<lambda>k. if Q (f k) then 1 else 0) ks) = length (filter Q (map f ks))"
  by (induction ks) simp_all

lemma count_descendants:
  "length (filter Q (descendants (Node si kids d)))
     = length (filter Q (map node_spanInfo kids))
       + sum_list (map (\<lambda>k. length (filter Q (descendants k))) kids)"
  by (induction kids) simp_all

lemma distinct_values:
  "distinct (map fst sm) \<Longrightarrow> \<forall>(k, c)\<in>set sm. k = SpanID (si_span c) \<Longrightarrow> distinct (map snd sm)"
proof (induction sm)
  case Nil
  show ?case by simp
next
  case (Cons p sm)
  have "snd p \<notin> snd ` set sm"
  proof
    assume "snd p \<in> snd ` set sm"
    then obtain q where q: "q \<in> set sm" "snd q = snd p" by auto
    have "fst q = SpanID (si_span (snd q))" "fst p = SpanID (si_span (snd p))"
      using Cons.prems(2) q(1) by auto
    then have "fst p \<in> fst ` set sm" using q by (metis imageI)
    then show False using Cons.prems(1) by simp
  qed
  then show ?case using Cons by simp
qed

lemma children_are_matching:
  assumes "childrenSorted sm (Node si kids d)" "k \<in> set kids"
  shows "node_spanInfo k \<in> snd ` set sm"
    and "ParentSpanID (si_span (node_spanInfo k)) = SpanID (si_span si)"
    and "childrenSorted sm k"
proof -
  have "mset (map node_spanInfo kids)
      = mset (filter (\<lambda>c. ParentSpanID (si_span c) = SpanID (si_span si)) (map snd sm))"
    using assms(1) by simp
  then have "set (map node_spanInfo kids)
      = set (filter (\<lambda>c. ParentSpanID (si_span c) = SpanID (si_span si)) (map snd sm))"
    by (metis set_mset_mset)
  moreover have "node_spanInfo k \<in> set (map node_spanInfo kids)" using assms(2) by simp
  ultimately have "node_spanInfo k
      \<in> set (filter (\<lambda>c. ParentSpanID (si_span c) = SpanID (si_span si)) (map snd sm))"
    by blast
  then show "node_spanInfo k \<in> snd ` set sm"
    and "ParentSpanID (si_span (node_spanInfo k)) = SpanID (si_span si)"
    by auto
  show "childrenSorted sm k" using assms by simp
qed

lemma descendants_rank:
  fixes r :: "string \<Rightarrow> nat"
  assumes rank: "\<forall>c\<in>snd ` set sm. r (ParentSpanID (si_span c)) < r (SpanID (si_span c))"
  shows "childrenSorted sm t \<Longrightarrow> n \<in> set (descendants t) \<Longrightarrow>
    n \<in> snd ` set sm \<and> r (SpanID (si_span (node_spanInfo t))) < r (SpanID (si_span n))"
proof (induction t arbitrary: n)
  case (Node si kids d)
  from Node.prems(2) obtain k where k: "k \<in> set kids"
    "n = node_spanInfo k \<or> n \<in> set (descendants k)" by auto
  note m = children_are_matching [OF Node.prems(1) k(1)]
  have rk: "r (SpanID (si_span si)) < r (SpanID (si_span (node_spanInfo k)))"
    using rank m(1,2) by force
  from k(2) show ?case
  proof
    assume "n = node_spanInfo k"
    then show ?thesis using m(1) rk by simp
  next
    assume "n \<in> set (descendants k)"
    from Node.IH [OF k(1) m(3) this] show ?thesis using rk by simp
  qed
qed

lemma count_list_filter:
  "count_list (filter P xs) x = (if P x then count_list xs x else 0)"
  by (induction xs) auto

lemma count_list_distinct: "distinct xs \<Longrightarrow> x \<in> set xs \<Longrightarrow> count_list xs x = 1"
  by (induction xs) auto

lemma count_children:
  assumes "distinct (map snd sm)" "childrenSorted sm (Node si kids d)" "x \<in> snd ` set sm"
  shows "length (filter (\<lambda>n. x = n) (map node_spanInfo kids))
      = (if ParentSpanID (si_span x) = SpanID (si_span si) then 1 else 0)"
proof -
  have "mset (map node_spanInfo kids)
      = mset (filter (\<lambda>c. ParentSpanID (si_span c) = SpanID (si_span si)) (map snd sm))"
    using assms(2) by simp
  then have "count (mset (map node_spanInfo kids)) x
      = count (mset (filter (\<lambda>c. ParentSpanID (si_span c) = SpanID (si_span si)) (map snd sm))) x"
    by (rule arg_cong)
  then have "count_list (map node_spanInfo kids) x
      = count_list (filter (\<lambda>c. ParentSpanID (si_span c) = SpanID (si_span si)) (map snd sm)) x"
    by (simp only: count_mset)
  moreover have "count_list (map snd sm) x = 1"
    using assms(1,3) by (intro count_list_distinct) simp_all
  ultimately have "count_list (map node_spanInfo kids) x
      = (if ParentSpanID (si_span x) = SpanID (si_span si) then 1 else 0)"
    by (simp only: count_list_filter)
  then show ?thesis by (simp only: count_list_eq_length_filter)
qed

lemma count_descendants_eq:
  assumes dist: "distinct (map snd sm)"
  shows "childrenSorted sm t \<Longrightarrow> x \<in> snd ` set sm \<Longrightarrow>
    length (filter (\<lambda>n. x = n) (descendants t))
      = (if ParentSpanID (si_span x) = SpanID (si_span (node_spanInfo t)) then 1 else 0)
        + length (filter (\<lambda>n. ParentSpanID (si_span x) = SpanID (si_span n)) (descendants t))"
proof (induction t)
  case (Node si kids d)
  let ?q = "ParentSpanID (si_span x)"
  let ?isx = "\<lambda>n. x = n"
  let ?hasq = "\<lambda>n. ?q = SpanID (si_span n)"
  have "map (\<lambda>k. length (filter ?isx (descendants k))) kids
      = map (\<lambda>k. (if ?hasq (node_spanInfo k) then 1 else 0) + length (filter ?hasq (descendants k))) kids"
  proof (rule map_cong [OF refl])
    fix k assume k: "k \<in> set kids"
    note m = children_are_matching [OF Node.prems(1) k]
    from Node.IH [OF k m(3) Node.prems(2)]
    show "length (filter ?isx (descendants k))
      = (if ?hasq (node_spanInfo k) then 1 else 0) + length (filter ?hasq (descendants k))" .
  qed
  then have "sum_list (map (\<lambda>k. length (filter ?isx (descendants k))) kids)
      = sum_list (map (\<lambda>k. (if ?hasq (node_spanInfo k) then 1 else 0) + length (filter ?hasq (descendants k))) kids)"
    by (rule arg_cong)
  also have "\<dots> = sum_list (map (\<lambda>k. if ?hasq (node_spanInfo k) then 1 else 0) kids)
      + sum_list (map (\<lambda>k. length (filter ?hasq (descendants k))) kids)"
    by (rule sum_list_addf)
  also have "sum_list (map (\<lambda>k. if ?hasq (node_spanInfo k) then 1 else 0) kids)
      = length (filter ?hasq (map node_spanInfo kids))"
    by (rule sum_list_indicator)
  finally have rec: "sum_list (map (\<lambda>k. length (filter ?isx (descendants k))) kids)
      = length (filter ?hasq (map node_spanInfo kids))
        + sum_list (map (\<lambda>k. length (filter ?hasq (descendants k))) kids)" .
  have "length (filter ?isx (descendants (Node si kids d)))
      = length (filter ?isx (map node_spanInfo kids))
        + sum_list (map (\<lambda>k. length (filter ?isx (descendants k))) kids)"
    by (rule count_descendants)
  also have "\<dots> = (if ?q = SpanID (si_span si) then 1 else 0)
        + (length (filter ?hasq (map node_spanInfo kids))
           + sum_list (map (\<lambda>k. length (filter ?hasq (descendants k))) kids))"
    unfolding rec count_children [OF dist Node.prems(1) Node.prems(2)] by simp
  also have "length (filter ?hasq (map node_spanInfo kids))
           + sum_list (map (\<lambda>k. length (filter ?hasq (descendants k))) kids)
      = length (filter ?hasq (descendants (Node si kids d)))"
    by (rule count_descendants [symmetric])
  finally show ?case by simp
qed

lemma span_ids_inj:
  assumes "distinct (map fst sm)" "\<forall>(k, c)\<in>set sm. k = SpanID (si_span c)"
  shows "inj_on (\<lambda>c. SpanID (si_span c)) (snd ` set sm)"
proof (rule inj_onI)
  fix a b assume a: "a \<in> snd ` set sm" and b: "b \<in> snd ` set sm"
    and ab: "SpanID (si_span a) = SpanID (si_span b)"
  from a obtain ka where ka: "(ka, a) \<in> set sm" by auto
  from b obtain kb where kb: "(kb, b) \<in> set sm" by auto
  have "ka = SpanID (si_span a)" "kb = SpanID (si_span b)" using assms(2) ka kb by auto
  then have "ka = kb" using ab by simp
  then show "a = b" using assms(1) ka kb by (metis eq_key_imp_eq_value)
qed

lemma descendants_at_most_once:
  fixes r :: "string \<Rightarrow> nat"
  assumes dk: "distinct (map fst sm)"
    and keys: "\<forall>(k, c)\<in>set sm. k = SpanID (si_span c)"
    and rank: "\<forall>c\<in>snd ` set sm. r (ParentSpanID (si_span c)) < r (SpanID (si_span c))"
    and cs: "childrenSorted sm t"
  shows "length (filter (\<lambda>n. x = n) (descendants t)) \<le> 1"
proof (induction "r (SpanID (si_span x))" arbitrary: x rule: less_induct)
  case less
  note D1 = descendants_rank [OF rank cs]
  show ?case
  proof (cases "x \<in> snd ` set sm")
    case False
    then have "x \<notin> set (descendants t)" using D1 by blast
    then have "filter (\<lambda>n. x = n) (descendants t) = []" by (auto simp: filter_empty_conv)
    then show ?thesis by simp
  next
    case True
    let ?q = "ParentSpanID (si_span x)"
    let ?hasq = "\<lambda>n. ?q = SpanID (si_span n)"
    have rq: "r ?q < r (SpanID (si_span x))" using rank True by blast
    have eq: "length (filter (\<lambda>n. x = n) (descendants t))
      = (if ?q = SpanID (si_span (node_spanInfo t)) then 1 else 0)
        + length (filter ?hasq (descendants t))"
      by (rule count_descendants_eq [OF distinct_values [OF dk keys] cs True])
    have bound: "length (filter ?hasq (descendants t)) \<le> 1"
    proof (cases "\<exists>y\<in>snd ` set sm. SpanID (si_span y) = ?q")
      case True
      then obtain y where y: "y \<in> snd ` set sm" "SpanID (si_span y) = ?q" by blast
      have "filter ?hasq (descendants t) = filter (\<lambda>n. y = n) (descendants t)"
      proof (rule filter_cong [OF refl])
        fix n assume "n \<in> set (descendants t)"
        then have n: "n \<in> snd ` set sm" using D1 by blast
        show "?hasq n = (y = n)"
        proof
          assume "?hasq n"
          then have "SpanID (si_span y) = SpanID (si_span n)" using y(2) by simp
          from inj_onD [OF span_ids_inj [OF dk keys] this y(1) n] show "y = n" .
        next
          assume "y = n"
          then show "?hasq n" using y(2) by simp
        qed
      qed
      moreover have "length (filter (\<lambda>n. y = n) (descendants t)) \<le> 1"
        using rq y(2) by (intro less.hyps) simp
      ultimately show ?thesis by simp
    next
      case False
      have "\<not> ?hasq n" if "n \<in> set (descendants t)" for n
      proof -
        from that have "n \<in> snd ` set sm" using D1 by blast
        then show ?thesis using False by auto
      qed
      then have "filter ?hasq (descendants t) = []" by (simp add: filter_empty_conv)
      then show ?thesis by simp
    qed
    have root: "length (filter ?hasq (descendants t)) = 0"
      if "?q = SpanID (si_span (node_spanInfo t))"
    proof -
      have "\<not> ?hasq n" if n: "n \<in> set (descendants t)" for n
      proof -
        from n have "r (SpanID (si_span (node_spanInfo t))) < r (SpanID (si_span n))"
          using D1 by blast
        then show ?thesis using \<open>?q = SpanID (si_span (node_spanInfo t))\<close> by auto
      qed
      then have "filter ?hasq (descendants t) = []" by (simp add: filter_empty_conv)
      then show ?thesis by simp
    qed
    show ?thesis using eq bound root by (cases "?q = SpanID (si_span (node_spanInfo t))") simp_all
  qed
qed

lemma distinct_if_count_le_1: "\<forall>a. count_list xs a \<le> 1 \<Longrightarrow> distinct xs"
proof (induction xs)
  case Nil
  show ?case by simp
next
  case (Cons x xs)
  have "count_list (x # xs) x \<le> 1" using Cons.prems by blast
  then have "count_list xs x = 0" by simp
  then have "x \<notin> set xs" by (simp add: count_list_0_iff)
  moreover have "\<forall>a. count_list xs a \<le> 1"
  proof
    fix a
    have "count_list xs a \<le> count_list (x # xs) a" by simp
    also have "\<dots> \<le> 1" using Cons.prems by blast
    finally show "count_list xs a \<le> 1" .
  qed
  ultimately show ?case using Cons.IH by simp
qed

lemma treeSize_bound:
  fixes r :: "string \<Rightarrow> nat"
  assumes dk: "distinct (map fst sm)"
    and keys: "\<forall>(k, c)\<in>set sm. k = SpanID (si_span c)"
    and rank: "\<forall>c\<in>snd ` set sm. r (ParentSpanID (si_span c)) < r (SpanID (si_span c))"
    and cs: "childrenSorted sm t"
  shows "treeSize t \<le> Suc (length sm)"
proof -
  have "count_list (descendants t) a \<le> 1" for a
    using descendants_at_most_once [OF dk keys rank cs, of a]
    by (simp only: count_list_eq_length_filter)
  then have "distinct (descendants t)" by (intro distinct_if_count_le_1) simp
  then have "length (descendants t) = card (set (descendants t))" by (simp add: distinct_card)
  also have "\<dots> \<le> card (snd ` set sm)"
    using descendants_rank [OF rank cs] by (intro card_mono) auto
  also have "\<dots> \<le> card (set sm)" by (rule card_image_le) simp
  also have "\<dots> \<le> length sm" by (rule card_length)
  finally show ?thesis by (simp add: treeSize_descendants)
qed

lemma distinct_buildSpanMap_aux:
  "distinct (map fst m) \<Longrightarrow>
   distinct (map fst (foldl (\<lambda>spanMap si. AList.update (SpanID (si_span si)) si spanMap) m sis))"
  by (induction sis arbitrary: m) (simp_all add: distinct_update)

lemma distinct_buildSpanMap: "distinct (map fst (buildSpanMap sis))"
  unfolding buildSpanMap_def by (rule distinct_buildSpanMap_aux) simp

text \<open>
  Claim C2, as amended. \<^verbatim>\<open>buildChildren\<close> keeps no set of visited spans. Where the
  parent links of the span map have no cycle (a rank grows from every parent identifier to
  the span's own identifier), building the tree returns for every order of visit of the
  map, with nested calls no deeper than the number of spans plus one: that depth, and any
  larger one, gives the same tree, and the tree has at most as many nodes as there are
  spans, plus one. A list without any span without parent is covered where the accessor
  returns the empty identifier on the zero value.
\<close>

theorem acyclic_trace_terminates:
  fixes r :: "string \<Rightarrow> nat"
  assumes "\<forall>p. rangeOrder (ord p)"
    and "\<forall>c\<in>snd ` set (buildSpanMap (spans ti)).
           r (ParentSpanID (si_span c)) < r (SpanID (si_span c))"
    and "zp \<longrightarrow> (\<exists>si\<in>set (spans ti). ParentSpanID (si_span si) = [])"
  shows "\<exists>t. (\<forall>fuel. length (spans ti) < fuel \<longrightarrow> buildSpanTree zp fuel ord ti = Some t)
    \<and> treeSize t \<le> length (spans ti) + 1"
proof -
  have found: "\<not> (find (\<lambda>si. ParentSpanID (si_span si) = []) (spans ti) = None \<and> zp)"
    using assms(3) by (auto simp: find_None_iff)
  let ?sm = "buildSpanMap (spans ti)"
  let ?D = "{k \<in> fst ` set ?sm. r (SpanID (si_span (rootOf ti))) < r k}"
  have keys: "\<forall>(k, c)\<in>set ?sm. k = SpanID (si_span c)"
    using buildSpanMap_keys by blast
  have "card ?D \<le> card (fst ` set ?sm)" by (intro card_mono) auto
  also have "\<dots> \<le> length ?sm" by (metis card_length length_map set_map)
  also have "\<dots> \<le> length (spans ti)" by (rule buildSpanMap_length)
  finally have "card ?D < Suc (length (spans ti))" by simp
  from buildChildren_enough_fuel [OF assms(1) keys assms(2) this]
  obtain t where t: "buildChildren (Suc (length (spans ti))) ord (rootOf ti) 0 ?sm = Some t"
    by blast
  have "\<forall>fuel. length (spans ti) < fuel \<longrightarrow> buildSpanTree zp fuel ord ti = Some t"
  proof (intro allI impI)
    fix fuel assume "length (spans ti) < fuel"
    then have "Suc (length (spans ti)) \<le> fuel" by simp
    from buildChildren_fuel_mono [OF this t] show "buildSpanTree zp fuel ord ti = Some t"
      using found by (simp add: buildSpanTree_root)
  qed
  moreover have "treeSize t \<le> length (spans ti) + 1"
  proof -
    have "childrenSorted ?sm t" using assms(1) t by (rule buildChildren_childrenSorted)
    from treeSize_bound [OF distinct_buildSpanMap keys assms(2) this]
    show ?thesis using buildSpanMap_length [of "spans ti"] by simp
  qed
  ultimately show ?thesis by blast
qed

text \<open>
  Claim C7, as amended. In the tree that reconstruction returns for a span list, under any
  order of visit of the span map, the children of every node are exactly the spans of the
  map whose parent identifier is the node's span identifier, sorted by start time
  ascending, one level below the node; the root, at depth 0, is the first span without
  parent (the first span of the list where there is none). Nothing is stated about the
  relative order of children with equal start times. When the spans of the map have
  pairwise different start times, every other order of visit returns the same tree.
\<close>

theorem span_tree_children:
  assumes "\<forall>p. rangeOrder (ord1 p)" and "buildSpanTree zp fuel ord1 ti = Some t"
  shows "childrenSorted (buildSpanMap (spans ti)) t
    \<and> node_spanInfo t = rootOf ti
    \<and> node_depth t = 0
    \<and> ((\<forall>p. rangeOrder (ord2 p))
         \<and> distinct (map (\<lambda>si. StartTimestamp (si_span si)) (map snd (buildSpanMap (spans ti))))
       \<longrightarrow> buildSpanTree zp fuel ord2 ti = Some t)"
proof (intro conjI impI)
  let ?sm = "buildSpanMap (spans ti)"
  from assms(2) have found: "\<not> (find (\<lambda>si. ParentSpanID (si_span si) = []) (spans ti) = None \<and> zp)"
    and b: "buildChildren fuel ord1 (rootOf ti) 0 ?sm = Some t"
    by (simp_all add: buildSpanTree_root split: if_splits)
  show "childrenSorted ?sm t" using assms(1) b by (rule buildChildren_childrenSorted)
  show "node_spanInfo t = rootOf ti" using buildChildren_Some_root [OF b] by simp
  show "node_depth t = 0" using buildChildren_Some_root [OF b] by simp
  assume h: "(\<forall>p. rangeOrder (ord2 p))
         \<and> distinct (map (\<lambda>si. StartTimestamp (si_span si)) (map snd ?sm))"
  then have "distinct (map (\<lambda>si. StartTimestamp (si_span si)) (map snd ?sm))"
    by blast
  then have "inj_on (\<lambda>si. StartTimestamp (si_span si)) (set (map snd ?sm))"
    using distinct_map [of "\<lambda>si. StartTimestamp (si_span si)" "map snd ?sm"] by blast
  then have inj: "inj_on (\<lambda>si. StartTimestamp (si_span si)) (snd ` set ?sm)" by simp
  have o2: "\<forall>p. rangeOrder (ord2 p)" using h by blast
  have "buildChildren fuel ord2 (rootOf ti) 0 ?sm = Some t"
    using buildChildren_order_irrelevant [OF assms(1) o2 inj, of fuel "rootOf ti" 0] b by simp
  then show "buildSpanTree zp fuel ord2 ti = Some t"
    unfolding buildSpanTree_root by (simp only: found if_False)
qed

lemma two_cycle_never_returns:
  assumes "a \<noteq> b" "SpanID (si_span A) = a" "ParentSpanID (si_span A) = b"
    "SpanID (si_span B) = b" "ParentSpanID (si_span B) = a"
  shows "SpanID (si_span si) = a \<or> SpanID (si_span si) = b \<Longrightarrow>
    buildChildren fuel (\<lambda>p m. m) si d [(a, A), (b, B)] = None"
proof (induction fuel arbitrary: si d)
  case 0
  show ?case by (simp add: buildChildren.simps)
next
  case (Suc fuel)
  have A: "buildChildren fuel (\<lambda>p m. m) A (d + 1) [(a, A), (b, B)] = None"
    by (rule Suc.IH) (simp add: assms(2))
  have B: "buildChildren fuel (\<lambda>p m. m) B (d + 1) [(a, A), (b, B)] = None"
    by (rule Suc.IH) (simp add: assms(4))
  from Suc.prems show ?case
  proof
    assume "SpanID (si_span si) = a"
    then show ?thesis using assms B by (subst buildChildren.simps) (simp add: Let_def)
  next
    assume "SpanID (si_span si) = b"
    then show ?thesis using assms A by (subst buildChildren.simps) (simp add: Let_def)
  qed
qed

text \<open>
  Claim C2 as stated fails: for a trace whose root \<open>01\<close> is followed by a second record
  with span identifier \<open>01\<close> and parent \<open>01\<close>, and for the trace of two spans that are
  each other's parent, \<^verbatim>\<open>buildSpanTree\<close> returns no tree, at any depth of nesting and
  whatever the accessor does on the zero value.
\<close>

theorem cyclic_parents_never_return:
  "(\<forall>zeroPanics fuel. buildSpanTree zeroPanics fuel (\<lambda>p m. m)
     \<lparr>traceID = ''T'', spans =
       [\<lparr>si_span = \<lparr>TraceID = ''T'', SpanID = ''01'', ParentSpanID = [], SpanName = ''root'',
           StartTimestamp = 1, EndTimestamp = 9, SpanStatus = StatusCodeUnset\<rparr>,
         si_resource = [], si_scope = ([], [])\<rparr>,
        \<lparr>si_span = \<lparr>TraceID = ''T'', SpanID = ''01'', ParentSpanID = ''01'', SpanName = ''again'',
           StartTimestamp = 2, EndTimestamp = 3, SpanStatus = StatusCodeUnset\<rparr>,
         si_resource = [], si_scope = ([], [])\<rparr>]\<rparr> = None)
   \<and> (\<forall>zeroPanics fuel. buildSpanTree zeroPanics fuel (\<lambda>p m. m)
     \<lparr>traceID = ''T'', spans =
       [\<lparr>si_span = \<lparr>TraceID = ''T'', SpanID = ''0a'', ParentSpanID = ''0b'', SpanName = ''A'',
           StartTimestamp = 1, EndTimestamp = 9, SpanStatus = StatusCodeUnset\<rparr>,
         si_resource = [], si_scope = ([], [])\<rparr>,
        \<lparr>si_span = \<lparr>TraceID = ''T'', SpanID = ''0b'', ParentSpanID = ''0a'', SpanName = ''B'',
           StartTimestamp = 2, EndTimestamp = 3, SpanStatus = StatusCodeUnset\<rparr>,
         si_resource = [], si_scope = ([], [])\<rparr>]\<rparr> = None)"
  by (simp add: buildSpanTree_def buildSpanMap_def zeroSpanInfo_def zeroSpan_def
      self_parent_never_returns two_cycle_never_returns)

theorem acyclic_trace_terminates_witness:
  "\<exists>t. buildSpanTree True 5 (\<lambda>p m. m)
     \<lparr>traceID = ''T'', spans =
       [\<lparr>si_span = \<lparr>TraceID = ''T'', SpanID = ''1'', ParentSpanID = [], SpanName = ''root'',
           StartTimestamp = 1, EndTimestamp = 2, SpanStatus = StatusCodeUnset\<rparr>,
         si_resource = [], si_scope = ([], [])\<rparr>,
        \<lparr>si_span = \<lparr>TraceID = ''T'', SpanID = ''10'', ParentSpanID = ''1'', SpanName = ''a'',
           StartTimestamp = 5, EndTimestamp = 6, SpanStatus = StatusCodeUnset\<rparr>,
         si_resource = [], si_scope = ([], [])\<rparr>,
        \<lparr>si_span = \<lparr>TraceID = ''T'', SpanID = ''11'', ParentSpanID = ''1'', SpanName = ''b'',
           StartTimestamp = 3, EndTimestamp = 4, SpanStatus = StatusCodeUnset\<rparr>,
         si_resource = [], si_scope = ([], [])\<rparr>,
        \<lparr>si_span = \<lparr>TraceID = ''T'', SpanID = ''100'', ParentSpanID = ''10'', SpanName = ''c'',
           StartTimestamp = 6, EndTimestamp = 7, SpanStatus = StatusCodeUnset\<rparr>,
         si_resource = [], si_scope = ([], [])\<rparr>]\<rparr> = Some t
   \<and> buildSpanTree True 50 (\<lambda>p m. m)
     \<lparr>traceID = ''T'', spans =
       [\<lparr>si_span = \<lparr>TraceID = ''T'', SpanID = ''1'', ParentSpanID = [], SpanName = ''root'',
           StartTimestamp = 1, EndTimestamp = 2, SpanStatus = StatusCodeUnset\<rparr>,
         si_resource = [], si_scope = ([], [])\<rparr>,
        \<lparr>si_span = \<lparr>TraceID = ''T'', SpanID = ''10'', ParentSpanID = ''1'', SpanName = ''a'',
           StartTimestamp = 5, EndTimestamp = 6, SpanStatus = StatusCodeUnset\<rparr>,
         si_resource = [], si_scope = ([], [])\<rparr>,
        \<lparr>si_span = \<lparr>TraceID = ''T'', SpanID = ''11'', ParentSpanID = ''1'', SpanName = ''b'',
           StartTimestamp = 3, EndTimestamp = 4, SpanStatus = StatusCodeUnset\<rparr>,
         si_resource = [], si_scope = ([], [])\<rparr>,
        \<lparr>si_span = \<lparr>TraceID = ''T'', SpanID = ''100'', ParentSpanID = ''10'', SpanName = ''c'',
           StartTimestamp = 6, EndTimestamp = 7, SpanStatus = StatusCodeUnset\<rparr>,
         si_resource = [], si_scope = ([], [])\<rparr>]\<rparr> = Some t
   \<and> treeSize t \<le> 5"
proof -
  have o: "\<forall>p. rangeOrder ((\<lambda>p m. m) p :: (string \<times> spanInfo) list \<Rightarrow> (string \<times> spanInfo) list)"
    by (simp add: rangeOrder_def)
  have a: "\<forall>c\<in>snd ` set (buildSpanMap (spans
     \<lparr>traceID = ''T'', spans =
       [\<lparr>si_span = \<lparr>TraceID = ''T'', SpanID = ''1'', ParentSpanID = [], SpanName = ''root'',
           StartTimestamp = 1, EndTimestamp = 2, SpanStatus = StatusCodeUnset\<rparr>,
         si_resource = [], si_scope = ([], [])\<rparr>,
        \<lparr>si_span = \<lparr>TraceID = ''T'', SpanID = ''10'', ParentSpanID = ''1'', SpanName = ''a'',
           StartTimestamp = 5, EndTimestamp = 6, SpanStatus = StatusCodeUnset\<rparr>,
         si_resource = [], si_scope = ([], [])\<rparr>,
        \<lparr>si_span = \<lparr>TraceID = ''T'', SpanID = ''11'', ParentSpanID = ''1'', SpanName = ''b'',
           StartTimestamp = 3, EndTimestamp = 4, SpanStatus = StatusCodeUnset\<rparr>,
         si_resource = [], si_scope = ([], [])\<rparr>,
        \<lparr>si_span = \<lparr>TraceID = ''T'', SpanID = ''100'', ParentSpanID = ''10'', SpanName = ''c'',
           StartTimestamp = 6, EndTimestamp = 7, SpanStatus = StatusCodeUnset\<rparr>,
         si_resource = [], si_scope = ([], [])\<rparr>]\<rparr>)).
       length (ParentSpanID (si_span c)) < length (SpanID (si_span c))"
    by (simp add: buildSpanMap_def)
  have root: "True \<longrightarrow> (\<exists>si\<in>set (spans
     \<lparr>traceID = ''T'', spans =
       [\<lparr>si_span = \<lparr>TraceID = ''T'', SpanID = ''1'', ParentSpanID = [], SpanName = ''root'',
           StartTimestamp = 1, EndTimestamp = 2, SpanStatus = StatusCodeUnset\<rparr>,
         si_resource = [], si_scope = ([], [])\<rparr>,
        \<lparr>si_span = \<lparr>TraceID = ''T'', SpanID = ''10'', ParentSpanID = ''1'', SpanName = ''a'',
           StartTimestamp = 5, EndTimestamp = 6, SpanStatus = StatusCodeUnset\<rparr>,
         si_resource = [], si_scope = ([], [])\<rparr>,
        \<lparr>si_span = \<lparr>TraceID = ''T'', SpanID = ''11'', ParentSpanID = ''1'', SpanName = ''b'',
           StartTimestamp = 3, EndTimestamp = 4, SpanStatus = StatusCodeUnset\<rparr>,
         si_resource = [], si_scope = ([], [])\<rparr>,
        \<lparr>si_span = \<lparr>TraceID = ''T'', SpanID = ''100'', ParentSpanID = ''10'', SpanName = ''c'',
           StartTimestamp = 6, EndTimestamp = 7, SpanStatus = StatusCodeUnset\<rparr>,
         si_resource = [], si_scope = ([], [])\<rparr>]\<rparr>). ParentSpanID (si_span si) = [])"
    by simp
  from acyclic_trace_terminates [OF o a root] obtain t where
    "\<forall>fuel. length (spans
     \<lparr>traceID = ''T'', spans =
       [\<lparr>si_span = \<lparr>TraceID = ''T'', SpanID = ''1'', ParentSpanID = [], SpanName = ''root'',
           StartTimestamp = 1, EndTimestamp = 2, SpanStatus = StatusCodeUnset\<rparr>,
         si_resource = [], si_scope = ([], [])\<rparr>,
        \<lparr>si_span = \<lparr>TraceID = ''T'', SpanID = ''10'', ParentSpanID = ''1'', SpanName = ''a'',
           StartTimestamp = 5, EndTimestamp = 6, SpanStatus = StatusCodeUnset\<rparr>,
         si_resource = [], si_scope = ([], [])\<rparr>,
        \<lparr>si_span = \<lparr>TraceID = ''T'', SpanID = ''11'', ParentSpanID = ''1'', SpanName = ''b'',
           StartTimestamp = 3, EndTimestamp = 4, SpanStatus = StatusCodeUnset\<rparr>,
         si_resource = [], si_scope = ([], [])\<rparr>,
        \<lparr>si_span = \<lparr>TraceID = ''T'', SpanID = ''100'', ParentSpanID = ''10'', SpanName = ''c'',
           StartTimestamp = 6, EndTimestamp = 7, SpanStatus = StatusCodeUnset\<rparr>,
         si_resource = [], si_scope = ([], [])\<rparr>]\<rparr>) < fuel \<longrightarrow> buildSpanTree True fuel (\<lambda>p m. m)
     \<lparr>traceID = ''T'', spans =
       [\<lparr>si_span = \<lparr>TraceID = ''T'', SpanID = ''1'', ParentSpanID = [], SpanName = ''root'',
           StartTimestamp = 1, EndTimestamp = 2, SpanStatus = StatusCodeUnset\<rparr>,
         si_resource = [], si_scope = ([], [])\<rparr>,
        \<lparr>si_span = \<lparr>TraceID = ''T'', SpanID = ''10'', ParentSpanID = ''1'', SpanName = ''a'',
           StartTimestamp = 5, EndTimestamp = 6, SpanStatus = StatusCodeUnset\<rparr>,
         si_resource = [], si_scope = ([], [])\<rparr>,
        \<lparr>si_span = \<lparr>TraceID = ''T'', SpanID = ''11'', ParentSpanID = ''1'', SpanName = ''b'',
           StartTimestamp = 3, EndTimestamp = 4, SpanStatus = StatusCodeUnset\<rparr>,
         si_resource = [], si_scope = ([], [])\<rparr>,
        \<lparr>si_span = \<lparr>TraceID = ''T'', SpanID = ''100'', ParentSpanID = ''10'', SpanName = ''c'',
           StartTimestamp = 6, EndTimestamp = 7, SpanStatus = StatusCodeUnset\<rparr>,
         si_resource = [], si_scope = ([], [])\<rparr>]\<rparr> = Some t"
    and "treeSize t \<le> length (spans
     \<lparr>traceID = ''T'', spans =
       [\<lparr>si_span = \<lparr>TraceID = ''T'', SpanID = ''1'', ParentSpanID = [], SpanName = ''root'',
           StartTimestamp = 1, EndTimestamp = 2, SpanStatus = StatusCodeUnset\<rparr>,
         si_resource = [], si_scope = ([], [])\<rparr>,
        \<lparr>si_span = \<lparr>TraceID = ''T'', SpanID = ''10'', ParentSpanID = ''1'', SpanName = ''a'',
           StartTimestamp = 5, EndTimestamp = 6, SpanStatus = StatusCodeUnset\<rparr>,
         si_resource = [], si_scope = ([], [])\<rparr>,
        \<lparr>si_span = \<lparr>TraceID = ''T'', SpanID = ''11'', ParentSpanID = ''1'', SpanName = ''b'',
           StartTimestamp = 3, EndTimestamp = 4, SpanStatus = StatusCodeUnset\<rparr>,
         si_resource = [], si_scope = ([], [])\<rparr>,
        \<lparr>si_span = \<lparr>TraceID = ''T'', SpanID = ''100'', ParentSpanID = ''10'', SpanName = ''c'',
           StartTimestamp = 6, EndTimestamp = 7, SpanStatus = StatusCodeUnset\<rparr>,
         si_resource = [], si_scope = ([], [])\<rparr>]\<rparr>) + 1"
    by blast
  then show ?thesis by (intro exI [of _ t]) simp
qed

text \<open>
  Claim C7 as stated fails: two children \<open>a\<close> and \<open>b\<close> with the same start time come
  out as \<open>a, b\<close> under one order of visit of the span map and as \<open>b, a\<close> under another.
\<close>

theorem equal_start_children_follow_iteration_order:
  "map_option (\<lambda>t. map (\<lambda>c. SpanID (si_span (node_spanInfo c))) (node_children t)) (buildSpanTree True 3 (\<lambda>p m. m)
     \<lparr>traceID = ''T'', spans =
       [\<lparr>si_span = \<lparr>TraceID = ''T'', SpanID = ''1'', ParentSpanID = [], SpanName = ''root'',
           StartTimestamp = 1, EndTimestamp = 2, SpanStatus = StatusCodeUnset\<rparr>,
         si_resource = [], si_scope = ([], [])\<rparr>,
        \<lparr>si_span = \<lparr>TraceID = ''T'', SpanID = ''a'', ParentSpanID = ''1'', SpanName = ''a'',
           StartTimestamp = 5, EndTimestamp = 6, SpanStatus = StatusCodeUnset\<rparr>,
         si_resource = [], si_scope = ([], [])\<rparr>,
        \<lparr>si_span = \<lparr>TraceID = ''T'', SpanID = ''b'', ParentSpanID = ''1'', SpanName = ''b'',
           StartTimestamp = 5, EndTimestamp = 6, SpanStatus = StatusCodeUnset\<rparr>,
         si_resource = [], si_scope = ([], [])\<rparr>]\<rparr>) = Some [''a'', ''b'']
   \<and> map_option (\<lambda>t. map (\<lambda>c. SpanID (si_span (node_spanInfo c))) (node_children t)) (buildSpanTree True 3 (\<lambda>p m. rev m)
     \<lparr>traceID = ''T'', spans =
       [\<lparr>si_span = \<lparr>TraceID = ''T'', SpanID = ''1'', ParentSpanID = [], SpanName = ''root'',
           StartTimestamp = 1, EndTimestamp = 2, SpanStatus = StatusCodeUnset\<rparr>,
         si_resource = [], si_scope = ([], [])\<rparr>,
        \<lparr>si_span = \<lparr>TraceID = ''T'', SpanID = ''a'', ParentSpanID = ''1'', SpanName = ''a'',
           StartTimestamp = 5, EndTimestamp = 6, SpanStatus = StatusCodeUnset\<rparr>,
         si_resource = [], si_scope = ([], [])\<rparr>,
        \<lparr>si_span = \<lparr>TraceID = ''T'', SpanID = ''b'', ParentSpanID = ''1'', SpanName = ''b'',
           StartTimestamp = 5, EndTimestamp = 6, SpanStatus = StatusCodeUnset\<rparr>,
         si_resource = [], si_scope = ([], [])\<rparr>]\<rparr>) = Some [''b'', ''a'']"
  by (simp add: buildSpanTree_def buildSpanMap_def buildChildren.simps Let_def sortSlice_def eval_nat_numeral)

theorem span_tree_children_witness:
  "buildSpanTree True 3 (\<lambda>p m. rev m)
     \<lparr>traceID = ''T'', spans =
       [\<lparr>si_span = \<lparr>TraceID = ''T'', SpanID = ''1'', ParentSpanID = [], SpanName = ''root'',
           StartTimestamp = 1, EndTimestamp = 2, SpanStatus = StatusCodeUnset\<rparr>,
         si_resource = [], si_scope = ([], [])\<rparr>,
        \<lparr>si_span = \<lparr>TraceID = ''T'', SpanID = ''a'', ParentSpanID = ''1'', SpanName = ''a'',
           StartTimestamp = 5, EndTimestamp = 6, SpanStatus = StatusCodeUnset\<rparr>,
         si_resource = [], si_scope = ([], [])\<rparr>,
        \<lparr>si_span = \<lparr>TraceID = ''T'', SpanID = ''b'', ParentSpanID = ''1'', SpanName = ''b'',
           StartTimestamp = 3, EndTimestamp = 4, SpanStatus = StatusCodeUnset\<rparr>,
         si_resource = [], si_scope = ([], [])\<rparr>]\<rparr>
   = buildSpanTree True 3 (\<lambda>p m. m)
     \<lparr>traceID = ''T'', spans =
       [\<lparr>si_span = \<lparr>TraceID = ''T'', SpanID = ''1'', ParentSpanID = [], SpanName = ''root'',
           StartTimestamp = 1, EndTimestamp = 2, SpanStatus = StatusCodeUnset\<rparr>,
         si_resource = [], si_scope = ([], [])\<rparr>,
        \<lparr>si_span = \<lparr>TraceID = ''T'', SpanID = ''a'', ParentSpanID = ''1'', SpanName = ''a'',
           StartTimestamp = 5, EndTimestamp = 6, SpanStatus = StatusCodeUnset\<rparr>,
         si_resource = [], si_scope = ([], [])\<rparr>,
        \<lparr>si_span = \<lparr>TraceID = ''T'', SpanID = ''b'', ParentSpanID = ''1'', SpanName = ''b'',
           StartTimestamp = 3, EndTimestamp = 4, SpanStatus = StatusCodeUnset\<rparr>,
         si_resource = [], si_scope = ([], [])\<rparr>]\<rparr>
   \<and> map_option (\<lambda>t. map (\<lambda>c. SpanID (si_span (node_spanInfo c))) (node_children t)) (buildSpanTree True 3 (\<lambda>p m. m)
     \<lparr>traceID = ''T'', spans =
       [\<lparr>si_span = \<lparr>TraceID = ''T'', SpanID = ''1'', ParentSpanID = [], SpanName = ''root'',
           StartTimestamp = 1, EndTimestamp = 2, SpanStatus = StatusCodeUnset\<rparr>,
         si_resource = [], si_scope = ([], [])\<rparr>,
        \<lparr>si_span = \<lparr>TraceID = ''T'', SpanID = ''a'', ParentSpanID = ''1'', SpanName = ''a'',
           StartTimestamp = 5, EndTimestamp = 6, SpanStatus = StatusCodeUnset\<rparr>,
         si_resource = [], si_scope = ([], [])\<rparr>,
        \<lparr>si_span = \<lparr>TraceID = ''T'', SpanID = ''b'', ParentSpanID = ''1'', SpanName = ''b'',
           StartTimestamp = 3, EndTimestamp = 4, SpanStatus = StatusCodeUnset\<rparr>,
         si_resource = [], si_scope = ([], [])\<rparr>]\<rparr>) = Some [''b'', ''a'']"
proof -
  have o1: "\<forall>p. rangeOrder ((\<lambda>p m. m) p :: (string \<times> spanInfo) list \<Rightarrow> (string \<times> spanInfo) list)"
    by (simp add: rangeOrder_def)
  have o2: "\<forall>p. rangeOrder ((\<lambda>p m. rev m) p :: (string \<times> spanInfo) list \<Rightarrow> (string \<times> spanInfo) list)"
    by (simp add: rangeOrder_def)
  have d: "distinct (map (\<lambda>si. StartTimestamp (si_span si)) (map snd (buildSpanMap (spans
     \<lparr>traceID = ''T'', spans =
       [\<lparr>si_span = \<lparr>TraceID = ''T'', SpanID = ''1'', ParentSpanID = [], SpanName = ''root'',
           StartTimestamp = 1, EndTimestamp = 2, SpanStatus = StatusCodeUnset\<rparr>,
         si_resource = [], si_scope = ([], [])\<rparr>,
        \<lparr>si_span = \<lparr>TraceID = ''T'', SpanID = ''a'', ParentSpanID = ''1'', SpanName = ''a'',
           StartTimestamp = 5, EndTimestamp = 6, SpanStatus = StatusCodeUnset\<rparr>,
         si_resource = [], si_scope = ([], [])\<rparr>,
        \<lparr>si_span = \<lparr>TraceID = ''T'', SpanID = ''b'', ParentSpanID = ''1'', SpanName = ''b'',
           StartTimestamp = 3, EndTimestamp = 4, SpanStatus = StatusCodeUnset\<rparr>,
         si_resource = [], si_scope = ([], [])\<rparr>]\<rparr>))))"
    by (simp add: buildSpanMap_def)
  obtain t where t: "buildSpanTree True 3 (\<lambda>p m. m)
     \<lparr>traceID = ''T'', spans =
       [\<lparr>si_span = \<lparr>TraceID = ''T'', SpanID = ''1'', ParentSpanID = [], SpanName = ''root'',
           StartTimestamp = 1, EndTimestamp = 2, SpanStatus = StatusCodeUnset\<rparr>,
         si_resource = [], si_scope = ([], [])\<rparr>,
        \<lparr>si_span = \<lparr>TraceID = ''T'', SpanID = ''a'', ParentSpanID = ''1'', SpanName = ''a'',
           StartTimestamp = 5, EndTimestamp = 6, SpanStatus = StatusCodeUnset\<rparr>,
         si_resource = [], si_scope = ([], [])\<rparr>,
        \<lparr>si_span = \<lparr>TraceID = ''T'', SpanID = ''b'', ParentSpanID = ''1'', SpanName = ''b'',
           StartTimestamp = 3, EndTimestamp = 4, SpanStatus = StatusCodeUnset\<rparr>,
         si_resource = [], si_scope = ([], [])\<rparr>]\<rparr> = Some t"
    by (simp add: buildSpanTree_def buildSpanMap_def buildChildren.simps Let_def sortSlice_def eval_nat_numeral)
  have n: "map_option (\<lambda>t. map (\<lambda>c. SpanID (si_span (node_spanInfo c))) (node_children t)) (buildSpanTree True 3 (\<lambda>p m. m)
     \<lparr>traceID = ''T'', spans =
       [\<lparr>si_span = \<lparr>TraceID = ''T'', SpanID = ''1'', ParentSpanID = [], SpanName = ''root'',
           StartTimestamp = 1, EndTimestamp = 2, SpanStatus = StatusCodeUnset\<rparr>,
         si_resource = [], si_scope = ([], [])\<rparr>,
        \<lparr>si_span = \<lparr>TraceID = ''T'', SpanID = ''a'', ParentSpanID = ''1'', SpanName = ''a'',
           StartTimestamp = 5, EndTimestamp = 6, SpanStatus = StatusCodeUnset\<rparr>,
         si_resource = [], si_scope = ([], [])\<rparr>,
        \<lparr>si_span = \<lparr>TraceID = ''T'', SpanID = ''b'', ParentSpanID = ''1'', SpanName = ''b'',
           StartTimestamp = 3, EndTimestamp = 4, SpanStatus = StatusCodeUnset\<rparr>,
         si_resource = [], si_scope = ([], [])\<rparr>]\<rparr>) = Some [''b'', ''a'']"
    by (simp add: buildSpanTree_def buildSpanMap_def buildChildren.simps Let_def sortSlice_def eval_nat_numeral)
  from span_tree_children [OF o1 t, of "\<lambda>p m. rev m"] o2 d t n
  show ?thesis by simp
qed

end
